theory Spec2Isabelle
  imports Main "HOL-Library.Sublist" "HOL-Library.Log_Nat"
begin

section \<open>The client's error boundary (client/src/ErrorBoundary.jsx)\<close>

text \<open>
  A \<^verbatim>\<open>ReactNode\<close> is whatever React renders: an element, a string, a number, a
  boolean, \<^verbatim>\<open>null\<close> or \<^verbatim>\<open>undefined\<close>. An optional prop that is not passed reads as
  \<^verbatim>\<open>undefined\<close>. Elements are opaque here and carry a name only.
\<close>

datatype ReactNode =
    RUndefined
  | RNull
  | RBoolean bool
  | RNumber int
  | RText string
  | RElement string

text \<open>JavaScript truthiness, which \<^verbatim>\<open>if (this.props.fallback)\<close> tests.\<close>

fun truthy :: "ReactNode \<Rightarrow> bool" where
  "truthy RUndefined = False"
| "truthy RNull = False"
| "truthy (RBoolean b) = b"
| "truthy (RNumber n) = (n \<noteq> 0)"
| "truthy (RText s) = (s \<noteq> [])"
| "truthy (RElement e) = True"

record Props =
  children :: ReactNode
  fallback :: ReactNode

record Error =
  message :: string

record ErrorInfo =
  componentStack :: string

record State =
  hasError :: bool
  error :: "Error option"
  errorInfo :: "ErrorInfo option"

text \<open>\<^verbatim>\<open>this.state = { hasError: false }\<close>\<close>

definition initialState :: State where
  "initialState = \<lparr>hasError = False, error = None, errorInfo = None\<rparr>"

text \<open>
  React merges the object a \<^verbatim>\<open>setState\<close> call or \<^verbatim>\<open>getDerivedStateFromError\<close> returns into
  the current state: the keys it names are overwritten, the others are kept.
\<close>

definition getDerivedStateFromError :: "Error \<Rightarrow> State \<Rightarrow> State" where
  "getDerivedStateFromError e s = s\<lparr>hasError := True, error := Some e\<rparr>"

definition componentDidCatch :: "Error \<Rightarrow> ErrorInfo \<Rightarrow> State \<Rightarrow> State" where
  "componentDidCatch e i s = s\<lparr>error := Some e, errorInfo := Some i\<rparr>"

definition handleRetry :: "State \<Rightarrow> State" where
  "handleRetry s = s\<lparr>hasError := False, error := None, errorInfo := None\<rparr>"

text \<open>
  What \<^verbatim>\<open>render\<close> returns: a node handed through as it is (the children or the fallback),
  or the component's own card. The card shows the error's message and, when there is one,
  the component stack, in a development build only.
\<close>

record ErrorDetails =
  shownMessage :: string
  shownStack :: "string option"

datatype Rendered =
    Node ReactNode
  | ErrorCard "ErrorDetails option"

definition errorCard :: "bool \<Rightarrow> State \<Rightarrow> Rendered" where
  "errorCard development s =
     ErrorCard
       (case error s of
          None \<Rightarrow> None
        | Some e \<Rightarrow>
            if development
            then Some \<lparr>shownMessage = message e,
                       shownStack = map_option componentStack (errorInfo s)\<rparr>
            else None)"

definition render :: "bool \<Rightarrow> Props \<Rightarrow> State \<Rightarrow> Rendered" where
  "render development p s =
     (if hasError s
      then (if truthy (fallback p) then Node (fallback p) else errorCard development s)
      else Node (children p))"

section \<open>Bugs as the client holds them (client/src/index.jsx)\<close>

text \<open>
  The client's types \<^verbatim>\<open>BugFormData\<close> and \<^verbatim>\<open>Bug\<close> are imported from \<^verbatim>\<open>@/types/bug\<close>;
  their fields are the ones the form's schema produces and the components read, a
  \<^verbatim>\<open>Bug\<close> being the form's data with an identifier, a status and two dates.
  \<^verbatim>\<open>BugStatus\<close> and \<^verbatim>\<open>BugPriority\<close> are string unions whose members are the
  keys of \<^verbatim>\<open>statusColors: Record<BugStatus, string>\<close> and
  \<^verbatim>\<open>priorityColors: Record<BugPriority, string>\<close> in BugCard.jsx. Dates are milliseconds.
  A \<^typ>\<open>string\<close> stands for a JavaScript string whose code units are below 256, one
  \<^typ>\<open>char\<close> per code unit, so \<^const>\<open>length\<close> is JavaScript's \<^verbatim>\<open>.length\<close>.
\<close>

datatype BugStatus = Open | InProgress | Resolved | Closed

datatype BugPriority = Low | Medium | High | Critical

record BugFormData =
  title :: string
  description :: string
  priority :: BugPriority
  assignee :: string
  reporter :: string
  environment :: string
  reproducible :: bool
  stepsToReproduce :: "string option"
  tags :: "string list"

record Bug = BugFormData +
  bug_id :: string
  status :: BugStatus
  createdAt :: int
  updatedAt :: int

text \<open>
  \<^verbatim>\<open>String.prototype.toLowerCase\<close> on code units below 256: the upper-case letters are
  \<^verbatim>\<open>A\<close>..\<^verbatim>\<open>Z\<close> (65..90) and the Latin-1 capitals 192..214 and 216..222, each 32 below
  its lower-case letter; every other unit is kept.
\<close>

definition lowerChar :: "char \<Rightarrow> char" where
  "lowerChar c =
     (let n = (of_char c :: nat)
      in if (65 \<le> n \<and> n \<le> 90) \<or> (192 \<le> n \<and> n \<le> 214) \<or> (216 \<le> n \<and> n \<le> 222)
         then char_of (n + 32) else c)"

definition toLowerCase :: "string \<Rightarrow> string" where
  "toLowerCase s = map lowerChar s"

text \<open>
  \<^verbatim>\<open>s.includes(t)\<close>: whether \<open>t\<close> occurs in \<open>s\<close> at some position, tried from the left.
\<close>

fun str_includes :: "string \<Rightarrow> string \<Rightarrow> bool" where
  "str_includes [] t = (t = [])"
| "str_includes (c # s) t = (prefix t (c # s) \<or> str_includes s t)"

text \<open>
  The predicate of the search, as index.jsx writes it:
  \<^verbatim>\<open>
  bug.title.toLowerCase().includes(searchTerm.toLowerCase()) ||
  bug.description.toLowerCase().includes(searchTerm.toLowerCase()) ||
  bug.assignee.toLowerCase().includes(searchTerm.toLowerCase()) ||
  bug.reporter.toLowerCase().includes(searchTerm.toLowerCase()) ||
  bug.tags.some(tag => tag.toLowerCase().includes(searchTerm.toLowerCase()))
  \<close>
\<close>

definition matchesSearch :: "string \<Rightarrow> Bug \<Rightarrow> bool" where
  "matchesSearch searchTerm bug =
     (str_includes (toLowerCase (title bug)) (toLowerCase searchTerm) \<or>
      str_includes (toLowerCase (description bug)) (toLowerCase searchTerm) \<or>
      str_includes (toLowerCase (assignee bug)) (toLowerCase searchTerm) \<or>
      str_includes (toLowerCase (reporter bug)) (toLowerCase searchTerm) \<or>
      list_ex (\<lambda>tag. str_includes (toLowerCase tag) (toLowerCase searchTerm)) (tags bug))"

text \<open>
  \<^verbatim>\<open>
  let result = filterBugs(filters);
  if (searchTerm) { result = result.filter(bug => ...); }
  return result;
  \<close>
  \<^verbatim>\<open>filterBugs\<close> comes from the hook \<^verbatim>\<open>useBugs\<close>, which closes over the fetched bugs; it is
  a parameter here. \<^verbatim>\<open>if (searchTerm)\<close> holds for every string but the empty one.
\<close>

definition filteredBugs :: "('f \<Rightarrow> Bug list) \<Rightarrow> 'f \<Rightarrow> string \<Rightarrow> Bug list" where
  "filteredBugs filterBugs filters searchTerm =
     (let result = filterBugs filters
      in if searchTerm \<noteq> [] then filter (\<lambda>bug. matchesSearch searchTerm bug) result
         else result)"

text \<open>
  What the specification calls a case-insensitive substring: after lower-casing both,
  the needle occurs in the field as a contiguous run.
\<close>

definition caseInsensitiveSubstring :: "string \<Rightarrow> string \<Rightarrow> bool" where
  "caseInsensitiveSubstring needle field = sublist (toLowerCase needle) (toLowerCase field)"

subsection \<open>The criteria filter\<close>

text \<open>
  Modelled from the spec: \<^verbatim>\<open>filterBugs\<close> of \<^verbatim>\<open>@/hooks/useBugs\<close> and the type \<^verbatim>\<open>BugFilters\<close>
  of \<^verbatim>\<open>@/types/bug\<close> are not among the source files. The specification (section 4.3):
  the criteria are the options status, priority, assignee and reproducible, each an exact
  match or unset; fields left unset impose no constraint; the result is the subsequence
  of the bugs satisfying all set criteria, in input order.
\<close>

record BugFilters =
  statusIs :: "BugStatus option"
  priorityIs :: "BugPriority option"
  assigneeIs :: "string option"
  reproducibleIs :: "bool option"

definition meets :: "'a option \<Rightarrow> 'a \<Rightarrow> bool" where
  "meets criterion v = (case criterion of None \<Rightarrow> True | Some w \<Rightarrow> v = w)"

definition satisfies :: "BugFilters \<Rightarrow> Bug \<Rightarrow> bool" where
  "satisfies criteria bug =
     (meets (statusIs criteria) (status bug) \<and>
      meets (priorityIs criteria) (priority bug) \<and>
      meets (assigneeIs criteria) (assignee bug) \<and>
      meets (reproducibleIs criteria) (reproducible bug))"

text \<open>
  Modelled from the spec: \<^verbatim>\<open>filter(bugs, criteria)\<close> returns the subsequence of the bugs
  satisfying all set criteria, preserving input order.
\<close>

definition filterBugs :: "Bug list \<Rightarrow> BugFilters \<Rightarrow> Bug list" where
  "filterBugs bugs criteria = filter (satisfies criteria) bugs"

definition noCriteria :: BugFilters where
  "noCriteria = \<lparr>statusIs = None, priorityIs = None, assigneeIs = None, reproducibleIs = None\<rparr>"

subsection \<open>Bugs to evaluate on\<close>

text \<open>Bug A is the one of the specification's scenarios; the other two vary it.\<close>

definition bugA :: Bug where
  "bugA = \<lparr>title = ''Crash on save'',
     description = ''App crashes when saving a document over 10MB'',
     priority = Critical, assignee = ''Alice'', reporter = ''Bob'',
     environment = ''Chrome 120'', reproducible = False, stepsToReproduce = None,
     tags = [], bug_id = ''a'', status = Open,
     createdAt = 1000, updatedAt = 1000\<rparr>"

definition bugB :: Bug where
  "bugB = \<lparr>title = ''Typo'',
     description = ''Misspelled-label'',
     priority = Low, assignee = ''Carol'', reporter = ''Dan'',
     environment = ''Firefox 121'', reproducible = True, stepsToReproduce = Some ''Open the form'',
     tags = [''ui'', ''CrashLoop''], bug_id = ''b'', status = Resolved,
     createdAt = 2000, updatedAt = 3000\<rparr>"

definition bugC :: Bug where
  "bugC = \<lparr>title = ''Timeout on load'',
     description = ''The request times out after thirty seconds'',
     priority = High, assignee = ''Alice'', reporter = ''Erin'',
     environment = ''Safari 17'', reproducible = True, stepsToReproduce = None,
     tags = [''network''], bug_id = ''c'', status = Open,
     createdAt = 4000, updatedAt = 4000\<rparr>"

section \<open>The server's controllers (server/src/controllers/bugController.js)\<close>

text \<open>
  Request bodies, stored documents and response bodies are JSON. A document is an object:
  its fields in order, the identifier under \<^verbatim>\<open>_id\<close>. The collection is the list of its
  documents.
\<close>

datatype json =
    JNull
  | JBool bool
  | JNum int
  | JStr string
  | JArr "json list"
  | JObj "(string \<times> json) list"

type_synonym document = "(string \<times> json) list"

type_synonym collection = "document list"

definition hasId :: "string \<Rightarrow> document \<Rightarrow> bool" where
  "hasId i d = (map_of d ''_id'' = Some (JStr i))"

definition ids :: "collection \<Rightarrow> json option list" where
  "ids c = map (\<lambda>d. map_of d ''_id'') c"

text \<open>Assigning one field of an object: in place if the key is there, at the end if not.\<close>

fun setField :: "string \<Rightarrow> json \<Rightarrow> document \<Rightarrow> document" where
  "setField k v [] = [(k, v)]"
| "setField k v ((k', v') # d) = (if k' = k then (k, v) # d else (k', v') # setField k v d)"

text \<open>The update operator \<^verbatim>\<open>$set\<close>: every field of the update is assigned to the document.\<close>

definition assign :: "document \<Rightarrow> document \<Rightarrow> document" where
  "assign d u = fold (\<lambda>(k, v). setField k v) u d"

text \<open>
  An \<^verbatim>\<open>await\<close> on the driver either resolves or throws. No controller catches: when
  the driver throws, the controller is left at the \<^verbatim>\<open>await\<close>, its promise rejected with
  what was thrown, and it sends nothing. What the driver throws:
\<close>

datatype thrown = CastError | StorageFault | ImmutableField | WriteError

text \<open>
  The driver is not repository code, and three things about it are parameters:
  \<open>castId\<close>, which strings it casts to an identifier and to which (\<^const>\<open>None\<close> for a
  string it cannot cast; it then throws a \<^verbatim>\<open>CastError\<close>); \<open>reachable\<close>, whether the store
  answers (when it does not, the driver throws); and \<open>operators\<close>, what it does to a
  document under an update that has a key which is not a plain field name, that is an
  operator such as \<^verbatim>\<open>$unset\<close> or a dotted path.
\<close>

record Driver =
  castId :: "string \<Rightarrow> string option"
  reachable :: bool
  operators :: "document \<Rightarrow> document \<Rightarrow> thrown + document"

definition plainKey :: "string \<Rightarrow> bool" where
  "plainKey k = (k \<noteq> [] \<and> hd k \<noteq> CHR ''$'' \<and> CHR ''.'' \<notin> set k)"

text \<open>
  An update of plain fields is wrapped into \<^verbatim>\<open>$set\<close>. The store refuses an update that
  would give the document another \<^verbatim>\<open>_id\<close>, and then changes nothing.
\<close>

definition changesId :: "document \<Rightarrow> document \<Rightarrow> bool" where
  "changesId d u = list_ex (\<lambda>(k, v). k = ''_id'' \<and> map_of d ''_id'' \<noteq> Some v) u"

definition applyUpdate :: "Driver \<Rightarrow> document \<Rightarrow> document \<Rightarrow> thrown + document" where
  "applyUpdate dr d u =
     (if list_all (\<lambda>(k, v). plainKey k) u
      then (if changesId d u then Inl ImmutableField else Inr (assign d u))
      else operators dr d u)"

text \<open>
  The first document with the identifier is the one found; identifiers are unique in a
  collection of the store, so it is the only one.
\<close>

fun deleteFirst :: "string \<Rightarrow> collection \<Rightarrow> collection \<times> document option" where
  "deleteFirst j [] = ([], None)"
| "deleteFirst j (d # ds) =
     (if hasId j d then (ds, Some d)
      else (case deleteFirst j ds of (ds', found) \<Rightarrow> (d # ds', found)))"

fun updateFirst ::
  "Driver \<Rightarrow> string \<Rightarrow> document \<Rightarrow> collection \<Rightarrow> collection \<times> (thrown + document option)" where
  "updateFirst dr j u [] = ([], Inr None)"
| "updateFirst dr j u (d # ds) =
     (if hasId j d
      then (case applyUpdate dr d u of
              Inl e \<Rightarrow> (d # ds, Inl e)
            | Inr d' \<Rightarrow> (d' # ds, Inr (Some d')))
      else (case updateFirst dr j u ds of (ds', r) \<Rightarrow> (d # ds', r)))"

text \<open>
  The model's statics, as the driver runs them. \<^verbatim>\<open>findByIdAndDelete(id)\<close> casts the
  identifier, removes the document with that \<^verbatim>\<open>_id\<close> and resolves to it, or to \<^verbatim>\<open>null\<close>
  when there is none. \<^verbatim>\<open>findByIdAndUpdate(id, update, { new: true })\<close> casts the
  identifier, has the schema cast the update, applies it to the document with that
  \<^verbatim>\<open>_id\<close> and resolves to the document after the update, or to \<^verbatim>\<open>null\<close> when there is
  none. \<^verbatim>\<open>null\<close> is \<^const>\<open>None\<close>. Casting comes before anything is sent to the store. The
  schema of \<^verbatim>\<open>models/Bug.js\<close> is not among the source files; what it makes of an update
  (the paths it keeps, the timestamps it adds, the values it cannot cast) is the
  parameter \<open>cast\<close>.
\<close>

definition findByIdAndDelete ::
  "Driver \<Rightarrow> collection \<Rightarrow> string \<Rightarrow> collection \<times> (thrown + document option)" where
  "findByIdAndDelete dr c i =
     (case castId dr i of
        None \<Rightarrow> (c, Inl CastError)
      | Some j \<Rightarrow>
          if \<not> reachable dr then (c, Inl StorageFault)
          else (case deleteFirst j c of (c', found) \<Rightarrow> (c', Inr found)))"

definition findByIdAndUpdate ::
  "(document \<Rightarrow> thrown + document) \<Rightarrow> Driver \<Rightarrow> collection \<Rightarrow> string \<Rightarrow> document
     \<Rightarrow> collection \<times> (thrown + document option)" where
  "findByIdAndUpdate cast dr c i update =
     (case castId dr i of
        None \<Rightarrow> (c, Inl CastError)
      | Some j \<Rightarrow>
          (case cast update of
             Inl e \<Rightarrow> (c, Inl e)
           | Inr u \<Rightarrow>
               if \<not> reachable dr then (c, Inl StorageFault)
               else updateFirst dr j u c))"

text \<open>
  What a controller sends: \<^verbatim>\<open>res.json(x)\<close> answers with status 200 unless
  \<^verbatim>\<open>res.status(n)\<close> came first, and \<^verbatim>\<open>res.json(null)\<close> sends the JSON \<^verbatim>\<open>null\<close>.
\<close>

record Response =
  statusCode :: nat
  body :: json

definition notFound :: "Response \<Rightarrow> bool" where
  "notFound r = (statusCode r = 404)"

text \<open>
  \<^verbatim>\<open>
  export const getBugs = async (req, res) => {
    const bugs = await Bug.find();
    res.json(bugs);
  };
  \<close>
  Here and in \<open>createBug\<close> the store is taken to answer.
\<close>

definition getBugs :: "collection \<Rightarrow> collection \<times> Response" where
  "getBugs c = (c, \<lparr>statusCode = 200, body = JArr (map JObj c)\<rparr>)"

text \<open>
  \<^verbatim>\<open>
  export const createBug = async (req, res) => {
    const bug = new Bug(req.body);
    await bug.save();
    res.status(201).json(bug);
  };
  \<close>
  The schema of \<^verbatim>\<open>models/Bug.js\<close> is not among the source files. It enters as two
  parameters: \<open>build\<close>, what \<^verbatim>\<open>new Bug(req.body)\<close> makes of the body (the paths it keeps,
  its defaults, the fresh \<^verbatim>\<open>_id\<close>), and \<open>validate\<close>, the paths that \<^verbatim>\<open>save()\<close> finds
  invalid. When there are any, \<^verbatim>\<open>save()\<close> rejects; the controller has no handler for that
  and sends nothing (\<^const>\<open>None\<close>).
\<close>

definition createBug ::
  "(document \<Rightarrow> document) \<Rightarrow> (document \<Rightarrow> string list) \<Rightarrow> collection \<Rightarrow> document
     \<Rightarrow> collection \<times> Response option" where
  "createBug build validate c reqBody =
     (let bug = build reqBody
      in if validate bug = [] then (c @ [bug], Some \<lparr>statusCode = 201, body = JObj bug\<rparr>)
         else (c, None))"

text \<open>
  \<^verbatim>\<open>
  export const updateBug = async (req, res) => {
    const bug = await Bug.findByIdAndUpdate(req.params.id, req.body, { new: true });
    res.json(bug);
  };
  \<close>
  The outcome is what the driver threw (\<^const>\<open>Inl\<close>: the controller sends nothing) or the
  response that the controller sends (\<^const>\<open>Inr\<close>).
\<close>

definition updateBug ::
  "(document \<Rightarrow> thrown + document) \<Rightarrow> Driver \<Rightarrow> collection \<Rightarrow> string \<Rightarrow> document
     \<Rightarrow> collection \<times> (thrown + Response)" where
  "updateBug cast dr c i reqBody =
     (case findByIdAndUpdate cast dr c i reqBody of
        (c', Inl e) \<Rightarrow> (c', Inl e)
      | (c', Inr bug) \<Rightarrow>
          (c', Inr \<lparr>statusCode = 200,
                    body = (case bug of None \<Rightarrow> JNull | Some d \<Rightarrow> JObj d)\<rparr>))"

text \<open>
  \<^verbatim>\<open>
  export const deleteBug = async (req, res) => {
    await Bug.findByIdAndDelete(req.params.id);
    res.json({ message: 'Bug deleted' });
  };
  \<close>
\<close>

definition deleteBug :: "Driver \<Rightarrow> collection \<Rightarrow> string \<Rightarrow> collection \<times> (thrown + Response)" where
  "deleteBug dr c i =
     (case findByIdAndDelete dr c i of
        (c', Inl e) \<Rightarrow> (c', Inl e)
      | (c', Inr bug) \<Rightarrow>
          (c', Inr \<lparr>statusCode = 200, body = JObj [(''message'', JStr ''Bug deleted'')]\<rparr>))"




subsection \<open>A driver and documents to evaluate on\<close>

text \<open>
  The driver of the examples takes the strings of 24 hexadecimal digits for identifiers,
  read without regard to case, and its store answers. It is given no operators, and
  refuses an update that has one; no example has one.
\<close>

definition hexDigit :: "char \<Rightarrow> bool" where
  "hexDigit c = (c \<in> set ''0123456789abcdefABCDEF'')"

definition objectId :: "string \<Rightarrow> string option" where
  "objectId s = (if length s = 24 \<and> list_all hexDigit s then Some (toLowerCase s) else None)"

definition driver24 :: Driver where
  "driver24 = \<lparr>castId = objectId, reachable = True, operators = (\<lambda>d u. Inl WriteError)\<rparr>"

definition docA :: document where
  "docA = [(''_id'', JStr ''65a000000000000000000001''), (''title'', JStr ''Crash on save''),
           (''status'', JStr ''open''), (''createdAt'', JNum 1000), (''updatedAt'', JNum 1000)]"

definition docB :: document where
  "docB = [(''_id'', JStr ''65a000000000000000000002''), (''title'', JStr ''Typo''),
           (''status'', JStr ''open''), (''createdAt'', JNum 2000), (''updatedAt'', JNum 2000)]"

section \<open>The bug form's schema (client/src/components/BugForm.jsx)\<close>

text \<open>
  The form's values are validated by the schema \<^verbatim>\<open>bugFormSchema\<close> through
  \<^verbatim>\<open>zodResolver\<close>. A schema reads a value, or \<^verbatim>\<open>undefined\<close> (\<^const>\<open>None\<close>) for a key that is
  missing, and gives back the parsed value or the issues it found. An issue has the path
  of the value it is about and, where the schema names one, the message.
\<close>

datatype pathItem = Key string | Index nat

datatype issueCode = invalid_type | too_small | too_big | invalid_enum_value

record issue =
  code :: issueCode
  path :: "pathItem list"
  customMessage :: "string option"

type_synonym 'a parsed = "issue list + 'a"

text \<open>
  \<^verbatim>\<open>z.string().min(n, msg).max(m, msg')\<close>: anything but a string is an \<open>invalid_type\<close>; on
  a string every length check runs, and each one that fails adds its issue.
\<close>

definition z_string ::
  "(nat \<times> string) option \<Rightarrow> (nat \<times> string) option \<Rightarrow> pathItem list \<Rightarrow> json option
     \<Rightarrow> string parsed" where
  "z_string minCheck maxCheck p v =
     (case v of
        Some (JStr s) \<Rightarrow>
          (let issues =
               (case minCheck of
                  Some (n, msg) \<Rightarrow>
                    if length s < n
                    then [\<lparr>code = too_small, path = p, customMessage = Some msg\<rparr>] else []
                | None \<Rightarrow> [])
               @ (case maxCheck of
                  Some (n, msg) \<Rightarrow>
                    if length s > n
                    then [\<lparr>code = too_big, path = p, customMessage = Some msg\<rparr>] else []
                | None \<Rightarrow> [])
           in if issues = [] then Inr s else Inl issues)
      | _ \<Rightarrow> Inl [\<lparr>code = invalid_type, path = p, customMessage = None\<rparr>])"

text \<open>\<^verbatim>\<open>z.enum([...])\<close>: a string that is one of the listed values.\<close>

definition z_enum :: "(string \<times> 'a) list \<Rightarrow> pathItem list \<Rightarrow> json option \<Rightarrow> 'a parsed" where
  "z_enum values p v =
     (case v of
        Some (JStr s) \<Rightarrow>
          (case map_of values s of
             Some x \<Rightarrow> Inr x
           | None \<Rightarrow> Inl [\<lparr>code = invalid_enum_value, path = p, customMessage = None\<rparr>])
      | _ \<Rightarrow> Inl [\<lparr>code = invalid_type, path = p, customMessage = None\<rparr>])"

text \<open>\<^verbatim>\<open>z.boolean()\<close>\<close>

definition z_boolean :: "pathItem list \<Rightarrow> json option \<Rightarrow> bool parsed" where
  "z_boolean p v =
     (case v of
        Some (JBool b) \<Rightarrow> Inr b
      | _ \<Rightarrow> Inl [\<lparr>code = invalid_type, path = p, customMessage = None\<rparr>])"

text \<open>
  Results are combined the way \<^verbatim>\<open>z.object\<close> and \<^verbatim>\<open>z.array\<close> do it: every part is parsed, and
  the issues of all parts are collected in order; the value is built only when there is
  no issue.
\<close>

fun ap :: "('a \<Rightarrow> 'b) parsed \<Rightarrow> 'a parsed \<Rightarrow> 'b parsed" where
  "ap (Inr f) (Inr x) = Inr (f x)"
| "ap (Inr f) (Inl e) = Inl e"
| "ap (Inl e) (Inr x) = Inl e"
| "ap (Inl e) (Inl e') = Inl (e @ e')"

definition issuesOf :: "'a parsed \<Rightarrow> issue list" where
  "issuesOf r = (case r of Inl e \<Rightarrow> e | Inr x \<Rightarrow> [])"

text \<open>\<^verbatim>\<open>z.array(element)\<close>: an array, each element parsed under its index.\<close>

fun z_array_items ::
  "(pathItem list \<Rightarrow> json option \<Rightarrow> 'a parsed) \<Rightarrow> pathItem list \<Rightarrow> nat \<Rightarrow> json list
     \<Rightarrow> 'a list parsed" where
  "z_array_items element p i [] = Inr []"
| "z_array_items element p i (x # xs) =
     ap (ap (Inr (#)) (element (p @ [Index i]) (Some x))) (z_array_items element p (Suc i) xs)"

definition z_array ::
  "(pathItem list \<Rightarrow> json option \<Rightarrow> 'a parsed) \<Rightarrow> pathItem list \<Rightarrow> json option
     \<Rightarrow> 'a list parsed" where
  "z_array element p v =
     (case v of
        Some (JArr xs) \<Rightarrow> z_array_items element p 0 xs
      | _ \<Rightarrow> Inl [\<lparr>code = invalid_type, path = p, customMessage = None\<rparr>])"

text \<open>
  \<^verbatim>\<open>.optional()\<close> lets \<^verbatim>\<open>undefined\<close> through; \<^verbatim>\<open>.default(d)\<close> parses \<open>d\<close> in place of
  \<^verbatim>\<open>undefined\<close>.
\<close>

definition z_optional ::
  "(pathItem list \<Rightarrow> json option \<Rightarrow> 'a parsed) \<Rightarrow> pathItem list \<Rightarrow> json option
     \<Rightarrow> 'a option parsed" where
  "z_optional inner p v =
     (case v of
        None \<Rightarrow> Inr None
      | Some x \<Rightarrow> ap (Inr Some) (inner p v))"

definition z_default ::
  "(pathItem list \<Rightarrow> json option \<Rightarrow> 'a parsed) \<Rightarrow> json \<Rightarrow> pathItem list \<Rightarrow> json option
     \<Rightarrow> 'a parsed" where
  "z_default inner d p v =
     (case v of
        None \<Rightarrow> inner p (Some d)
      | Some x \<Rightarrow> inner p v)"

text \<open>
  \<^verbatim>\<open>
  const bugFormSchema = z.object({
    title: z.string().min(1, 'Title is required')
                     .max(100, 'Title must be less than 100 characters'),
    description: z.string().min(10, 'Description must be at least 10 characters')
                           .max(1000, 'Description must be less than 1000 characters'),
    priority: z.enum(['low', 'medium', 'high', 'critical']),
    assignee: z.string().min(1, 'Assignee is required'),
    reporter: z.string().min(1, 'Reporter is required'),
    environment: z.string().min(1, 'Environment is required'),
    reproducible: z.boolean(),
    stepsToReproduce: z.string().optional(),
    tags: z.array(z.string()).default([])
  });
  \<close>
  The form's values are an object; its keys are read in the order of the schema.
\<close>

definition mkBugFormData ::
  "string \<Rightarrow> string \<Rightarrow> BugPriority \<Rightarrow> string \<Rightarrow> string \<Rightarrow> string \<Rightarrow> bool \<Rightarrow> string option
     \<Rightarrow> string list \<Rightarrow> BugFormData" where
  "mkBugFormData t d p a r e rp s tg =
     \<lparr>title = t, description = d, priority = p, assignee = a, reporter = r, environment = e,
      reproducible = rp, stepsToReproduce = s, tags = tg\<rparr>"

definition field ::
  "(pathItem list \<Rightarrow> json option \<Rightarrow> 'a parsed) \<Rightarrow> document \<Rightarrow> string \<Rightarrow> 'a parsed" where
  "field schema values k = schema [Key k] (map_of values k)"

definition bugFormSchema :: "document \<Rightarrow> BugFormData parsed" where
  "bugFormSchema values =
     ap (ap (ap (ap (ap (ap (ap (ap (ap (Inr mkBugFormData)
       (field (z_string (Some (1, ''Title is required''))
                        (Some (100, ''Title must be less than 100 characters''))) values ''title''))
       (field (z_string (Some (10, ''Description must be at least 10 characters''))
                        (Some (1000, ''Description must be less than 1000 characters'')))
          values ''description''))
       (field (z_enum [(''low'', Low), (''medium'', Medium), (''high'', High),
                       (''critical'', Critical)]) values ''priority''))
       (field (z_string (Some (1, ''Assignee is required'')) None) values ''assignee''))
       (field (z_string (Some (1, ''Reporter is required'')) None) values ''reporter''))
       (field (z_string (Some (1, ''Environment is required'')) None) values ''environment''))
       (field z_boolean values ''reproducible''))
       (field (z_optional (z_string None None)) values ''stepsToReproduce''))
       (field (z_default (z_array (z_string None None)) (JArr [])) values ''tags'')"

text \<open>
  \<^verbatim>\<open><form onSubmit={form.handleSubmit(handleSubmit)}>\<close> with
  \<^verbatim>\<open>handleSubmit = (data) => { onSubmit(data as BugFormData); }\<close>: the form resolves its
  values against the schema; with issues it reports them at their fields and does not
  call \<^verbatim>\<open>onSubmit\<close>, without it hands the parsed data to \<^verbatim>\<open>onSubmit\<close>, which for a new bug
  is the create call.
\<close>

definition handleSubmit :: "(BugFormData \<Rightarrow> 'r) \<Rightarrow> document \<Rightarrow> issue list + 'r" where
  "handleSubmit onSubmit values =
     (case bugFormSchema values of
        Inl issues \<Rightarrow> Inl issues
      | Inr data \<Rightarrow> Inr (onSubmit data))"

subsection \<open>The field constraints in the specification's words\<close>

text \<open>
  The title has 1 to 100 characters, the description 10 to 1000, the priority is one of
  low, medium, high and critical, and assignee, reporter and environment are non-empty.
  Of the remaining fields of the form, \<open>reproducible\<close> is a boolean, \<open>stepsToReproduce\<close> is
  a string when present and \<open>tags\<close> is a sequence of strings when present.
\<close>

definition textOfLength :: "nat \<Rightarrow> nat option \<Rightarrow> json option \<Rightarrow> bool" where
  "textOfLength lo hi v =
     (case v of
        Some (JStr s) \<Rightarrow> lo \<le> length s \<and> (case hi of None \<Rightarrow> True | Some h \<Rightarrow> length s \<le> h)
      | _ \<Rightarrow> False)"

definition isText :: "json \<Rightarrow> bool" where
  "isText x = (case x of JStr s \<Rightarrow> True | _ \<Rightarrow> False)"

definition fieldValid :: "string \<Rightarrow> json option \<Rightarrow> bool" where
  "fieldValid k v =
     (if k = ''title'' then textOfLength 1 (Some 100) v
      else if k = ''description'' then textOfLength 10 (Some 1000) v
      else if k = ''priority'' then
        v \<in> Some ` JStr ` {''low'', ''medium'', ''high'', ''critical''}
      else if k = ''assignee'' \<or> k = ''reporter'' \<or> k = ''environment'' then
        textOfLength 1 None v
      else if k = ''reproducible'' then (case v of Some (JBool b) \<Rightarrow> True | _ \<Rightarrow> False)
      else if k = ''stepsToReproduce'' then (case v of None \<Rightarrow> True | Some x \<Rightarrow> isText x)
      else if k = ''tags'' then
        (case v of None \<Rightarrow> True | Some (JArr xs) \<Rightarrow> list_all isText xs | _ \<Rightarrow> False)
      else True)"

definition formFields :: "string list" where
  "formFields = [''title'', ''description'', ''priority'', ''assignee'', ''reporter'',
                 ''environment'', ''reproducible'', ''stepsToReproduce'', ''tags'']"

definition violatedFields :: "document \<Rightarrow> string list" where
  "violatedFields values = filter (\<lambda>k. \<not> fieldValid k (map_of values k)) formFields"

text \<open>The field an issue is reported at: the first key of its path.\<close>

definition fieldOf :: "issue \<Rightarrow> string" where
  "fieldOf i = (case path i of Key k # rest \<Rightarrow> k | _ \<Rightarrow> [])"

subsection \<open>The server's API test\<close>

text \<open>
  \<^verbatim>\<open>
  it('should create a bug', async () => {
    const res = await request(app).post('/api/bugs').send({ title: 'Test Bug' });
    expect(res.statusCode).toEqual(201);
    expect(res.body.title).toBe('Test Bug');
  });
  \<close>
  The test is the one place of the sources that exercises the schema: a body that has a
  title and nothing else passes its validation and comes back with its title.
  \<open>requiresTitle\<close> and \<open>withId\<close> make a schema with which the test passes: a title that is
  a string is all it demands, and building adds the identifier.
\<close>

definition testBody :: document where
  "testBody = [(''title'', JStr ''Test Bug'')]"

definition requiresTitle :: "document \<Rightarrow> string list" where
  "requiresTitle d = (case map_of d ''title'' of Some (JStr s) \<Rightarrow> [] | _ \<Rightarrow> [''title''])"

definition withId :: "string \<Rightarrow> document \<Rightarrow> document" where
  "withId i d = (''_id'', JStr i) # d"

subsection \<open>Form values to evaluate on\<close>

definition valuesA :: document where
  "valuesA = [(''title'', JStr ''Crash on save''),
              (''description'', JStr ''App crashes when saving a document over 10MB''),
              (''priority'', JStr ''critical''), (''assignee'', JStr ''Alice''),
              (''reporter'', JStr ''Bob''), (''environment'', JStr ''Chrome 120''),
              (''reproducible'', JBool False), (''stepsToReproduce'', JStr []),
              (''tags'', JArr [])]"

definition valuesBad :: document where
  "valuesBad = [(''title'', JStr []), (''description'', JStr ''too short''),
                (''priority'', JStr ''urgent''), (''assignee'', JStr ''Alice''),
                (''reporter'', JStr []), (''environment'', JStr ''Chrome 120''),
                (''reproducible'', JBool True), (''stepsToReproduce'', JStr []),
                (''tags'', JArr [])]"


section \<open>The statistics (client/src/components/BugStats.jsx)\<close>

text \<open>
  JavaScript numbers are IEEE 754 binary64 values. The counts are array lengths, below
  \<open>2^32\<close>, and are exact. \<^verbatim>\<open>/\<close> and \<^verbatim>\<open>*\<close> give the binary64 value nearest to the exact
  result, ties to the even significand; \<^verbatim>\<open>Math.round\<close> gives the nearest integer, ties
  upwards. Numbers are rationals here, and \<open>fl\<close> is the rounding to binary64 for
  magnitudes in the normal range (from \<open>2^-1022\<close> up to \<open>2^1024\<close>), which holds every
  quotient of two counts and its product with 100.
\<close>

text \<open>The exponent \<open>e\<close> of a positive number: \<open>2^e \<le> x < 2^(e + 1)\<close>.\<close>

definition exponent :: "rat \<Rightarrow> int" where
  "exponent x =
     (if 1 \<le> x then int (floorlog 2 (nat \<lfloor>x\<rfloor>)) - 1
      else - int (floorlog 2 (nat (\<lceil>1 / x\<rceil> - 1))))"

definition roundTiesToEven :: "rat \<Rightarrow> int" where
  "roundTiesToEven x =
     (let n = \<lfloor>x\<rfloor>; d = x - of_int n
      in if d < 1 / 2 then n else if 1 / 2 < d then n + 1 else if even n then n else n + 1)"

text \<open>A binary64 significand has 53 bits, so the unit in the last place is \<open>2^(e - 52)\<close>.\<close>

definition fl :: "rat \<Rightarrow> rat" where
  "fl x =
     (if x = 0 then 0
      else (let ulp = 2 powi (exponent \<bar>x\<bar> - 52)
            in sgn x * of_int (roundTiesToEven (\<bar>x\<bar> / ulp)) * ulp))"

definition js_divide :: "rat \<Rightarrow> rat \<Rightarrow> rat" where
  "js_divide a b = fl (a / b)"

definition js_times :: "rat \<Rightarrow> rat \<Rightarrow> rat" where
  "js_times a b = fl (a * b)"

definition Math_round :: "rat \<Rightarrow> int" where
  "Math_round x = \<lfloor>x + 1 / 2\<rfloor>"

text \<open>
  \<^verbatim>\<open>
  const total = bugs.length;
  const open = bugs.filter(bug => bug.status === 'open').length;
  const inProgress = bugs.filter(bug => bug.status === 'in-progress').length;
  const resolved = bugs.filter(bug => bug.status === 'resolved').length;
  const closed = bugs.filter(bug => bug.status === 'closed').length;
  const critical = bugs.filter(bug => bug.priority === 'critical').length;
  const high = bugs.filter(bug => bug.priority === 'high').length;
  const medium = bugs.filter(bug => bug.priority === 'medium').length;
  const low = bugs.filter(bug => bug.priority === 'low').length;
  const resolvedPercentage = total > 0 ? Math.round((resolved / total) * 100) : 0;
  \<close>
  The fields \<^verbatim>\<open>total\<close>, \<^verbatim>\<open>open\<close> and \<^verbatim>\<open>closed\<close> carry the suffix \<open>_count\<close> here.
\<close>

record Stats =
  total_count :: nat
  open_count :: nat
  inProgress :: nat
  resolved :: nat
  closed_count :: nat
  critical :: nat
  high :: nat
  medium :: nat
  low :: nat
  resolvedPercentage :: int

definition computeStats :: "Bug list \<Rightarrow> Stats" where
  "computeStats bugs =
     (let total = length bugs;
          opn = length (filter (\<lambda>bug. status bug = Open) bugs);
          inProgress = length (filter (\<lambda>bug. status bug = InProgress) bugs);
          resolved = length (filter (\<lambda>bug. status bug = Resolved) bugs);
          closed = length (filter (\<lambda>bug. status bug = Closed) bugs);
          critical = length (filter (\<lambda>bug. priority bug = Critical) bugs);
          high = length (filter (\<lambda>bug. priority bug = High) bugs);
          medium = length (filter (\<lambda>bug. priority bug = Medium) bugs);
          low = length (filter (\<lambda>bug. priority bug = Low) bugs);
          resolvedPercentage =
            (if total > 0
             then Math_round (js_times (js_divide (of_nat resolved) (of_nat total)) 100)
             else 0)
      in \<lparr>total_count = total, open_count = opn, inProgress = inProgress,
          resolved = resolved, closed_count = closed, critical = critical, high = high,
          medium = medium, low = low, resolvedPercentage = resolvedPercentage\<rparr>)"


text \<open>
  The percentage in the specification's words, \<^verbatim>\<open>round(resolved / total * 100)\<close> when
  \<^verbatim>\<open>total > 0\<close> and 0 otherwise: the quotient and the product are the exact ones, and
  \<open>round\<close> gives the nearest integer.
\<close>

definition specResolvedPercentage :: "nat \<Rightarrow> nat \<Rightarrow> int" where
  "specResolvedPercentage r t =
     (if t > 0 then Math_round (of_nat r / of_nat t * 100) else 0)"
section \<open>Properties of the error boundary\<close>

text \<open>
  Claim C10, as stated, fails: a fallback that was supplied but is falsy (the empty
  string, \<^verbatim>\<open>0\<close>, \<^verbatim>\<open>false\<close>, \<^verbatim>\<open>null\<close>) is not rendered; the default card is. Here the
  boundary was given the empty string as fallback and has caught an error.
\<close>

theorem C10_falsy_fallback_counterexample:
  "render False \<lparr>children = RElement ''App'', fallback = RText ''''\<rparr>
       (getDerivedStateFromError \<lparr>message = ''boom''\<rparr> initialState)
     = ErrorCard None
   \<and> render False \<lparr>children = RElement ''App'', fallback = RText ''''\<rparr>
       (getDerivedStateFromError \<lparr>message = ''boom''\<rparr> initialState)
     \<noteq> Node (RText '''')"
  by (simp add: render_def errorCard_def getDerivedStateFromError_def initialState_def)

text \<open>
  Claim C10, amended: what the boundary renders is decided by \<open>hasError\<close>. While it is
  unset the children are rendered unchanged. Once an error is caught the fallback is
  rendered if it is truthy, and the default error card otherwise (also for a fallback
  that was passed but is falsy). \<open>handleRetry\<close> resets \<open>hasError\<close>, \<open>error\<close> and \<open>errorInfo\<close>
  all three, after which the children are rendered again.
\<close>

theorem C10_error_boundary_render:
  "render dev p initialState = Node (children p)
   \<and> render dev p s =
       (if \<not> hasError s then Node (children p)
        else if truthy (fallback p) then Node (fallback p)
        else errorCard dev s)
   \<and> hasError (getDerivedStateFromError e s)
   \<and> hasError (componentDidCatch e i (getDerivedStateFromError e s))
   \<and> handleRetry s = \<lparr>hasError = False, error = None, errorInfo = None\<rparr>
   \<and> render dev p (handleRetry s) = Node (children p)"
  by (simp add: render_def handleRetry_def initialState_def
      getDerivedStateFromError_def componentDidCatch_def)

theorem C10_error_boundary_render_witness:
  "render True \<lparr>children = RElement ''App'', fallback = RElement ''Oops''\<rparr>
       (componentDidCatch \<lparr>message = ''boom''\<rparr> \<lparr>componentStack = ''at App''\<rparr>
          (getDerivedStateFromError \<lparr>message = ''boom''\<rparr> initialState))
     = Node (RElement ''Oops'')
   \<and> render True \<lparr>children = RElement ''App'', fallback = RUndefined\<rparr>
       (componentDidCatch \<lparr>message = ''boom''\<rparr> \<lparr>componentStack = ''at App''\<rparr>
          (getDerivedStateFromError \<lparr>message = ''boom''\<rparr> initialState))
     = ErrorCard (Some \<lparr>shownMessage = ''boom'', shownStack = Some ''at App''\<rparr>)
   \<and> render True \<lparr>children = RElement ''App'', fallback = RUndefined\<rparr>
       (handleRetry (getDerivedStateFromError \<lparr>message = ''boom''\<rparr> initialState))
     = Node (RElement ''App'')"
  using C10_error_boundary_render
    [of True "\<lparr>children = RElement ''App'', fallback = RElement ''Oops''\<rparr>"
        "componentDidCatch \<lparr>message = ''boom''\<rparr> \<lparr>componentStack = ''at App''\<rparr>
          (getDerivedStateFromError \<lparr>message = ''boom''\<rparr> initialState)"
        "\<lparr>message = ''boom''\<rparr>" "\<lparr>componentStack = ''at App''\<rparr>"]
  by (simp add: render_def errorCard_def handleRetry_def initialState_def
      getDerivedStateFromError_def componentDidCatch_def)

section \<open>Properties of search and filter\<close>

lemma str_includes_sublist: "str_includes s t \<longleftrightarrow> sublist t s"
  by (induction s) (auto simp: sublist_Cons_right)

lemma matchesSearch_iff:
  "matchesSearch needle b \<longleftrightarrow>
     caseInsensitiveSubstring needle (title b) \<or>
     caseInsensitiveSubstring needle (description b) \<or>
     caseInsensitiveSubstring needle (assignee b) \<or>
     caseInsensitiveSubstring needle (reporter b) \<or>
     (\<exists>tag \<in> set (tags b). caseInsensitiveSubstring needle tag)"
  by (simp add: matchesSearch_def caseInsensitiveSubstring_def str_includes_sublist list_ex_iff)

lemma matchesSearch_empty: "matchesSearch [] b"
  by (simp add: matchesSearch_def toLowerCase_def str_includes_sublist)

lemma filteredBugs_eq_filter:
  "filteredBugs fb filters needle = filter (matchesSearch needle) (fb filters)"
  by (cases "needle = []") (simp_all add: filteredBugs_def matchesSearch_empty)

lemmas search_eval =
  filteredBugs_def matchesSearch_def toLowerCase_def lowerChar_def char_of_def bit_0
  bugA_def bugB_def bugC_def

lemmas filter_eval =
  filterBugs_def satisfies_def meets_def noCriteria_def

lemma count_list_subseq: "subseq xs ys \<Longrightarrow> count_list xs b \<le> count_list ys b"
  by (induction rule: list_emb.induct) auto

lemma set_subseq: "subseq xs ys \<Longrightarrow> set xs \<subseteq> set ys"
  by (induction rule: list_emb.induct) auto

text \<open>
  Claim C5: the search returns exactly the bugs for which the needle is a
  case-insensitive substring of the title, the description, the assignee, the reporter
  or at least one tag; and when the criteria filter keeps the bugs satisfying some
  predicate \<open>P\<close>, the combined result is the bugs satisfying \<open>P\<close> and the search predicate,
  in input order.
\<close>

theorem C5_search_exact:
  "filteredBugs (\<lambda>c. filter (P c) bugs) filters needle =
     filter (\<lambda>b. P filters b \<and>
        (caseInsensitiveSubstring needle (title b) \<or>
         caseInsensitiveSubstring needle (description b) \<or>
         caseInsensitiveSubstring needle (assignee b) \<or>
         caseInsensitiveSubstring needle (reporter b) \<or>
         (\<exists>tag \<in> set (tags b). caseInsensitiveSubstring needle tag))) bugs"
  by (simp add: filteredBugs_eq_filter matchesSearch_iff conj_commute)

theorem C5_search_exact_witness:
  "filteredBugs (\<lambda>c. filter (\<lambda>b. status b = c) [bugA, bugB, bugC]) Open ''CRASH'' = [bugA]
   \<and> filteredBugs (\<lambda>c. filter (\<lambda>b. True) [bugA, bugB, bugC]) Open ''CRASH'' = [bugA, bugB]
   \<and> filteredBugs (\<lambda>c. [bugA]) () ''zzz'' = []"
proof -
  have "filteredBugs (\<lambda>c. filter (\<lambda>b. status b = c) [bugA, bugB, bugC]) Open ''CRASH'' =
     filter (\<lambda>b. status b = Open \<and>
        (caseInsensitiveSubstring ''CRASH'' (title b) \<or>
         caseInsensitiveSubstring ''CRASH'' (description b) \<or>
         caseInsensitiveSubstring ''CRASH'' (assignee b) \<or>
         caseInsensitiveSubstring ''CRASH'' (reporter b) \<or>
         (\<exists>tag \<in> set (tags b). caseInsensitiveSubstring ''CRASH'' tag))) [bugA, bugB, bugC]"
    by (rule C5_search_exact)
  also have "\<dots> = [bugA]"
    by (simp add: search_eval caseInsensitiveSubstring_def str_includes_sublist [symmetric])
  finally have 1: "filteredBugs (\<lambda>c. filter (\<lambda>b. status b = c) [bugA, bugB, bugC]) Open ''CRASH''
      = [bugA]" .
  have 2: "filteredBugs (\<lambda>c. filter (\<lambda>b. True) [bugA, bugB, bugC]) Open ''CRASH'' = [bugA, bugB]"
    by (simp add: search_eval)
  have 3: "filteredBugs (\<lambda>c. [bugA]) () ''zzz'' = []"
    by (simp add: search_eval)
  from 1 2 3 show ?thesis by (intro conjI)
qed

text \<open>
  Claim C6, as stated, fails for a whitespace-only needle: a single space is a non-empty
  string, so the search runs, and a bug none of whose searched fields holds a space is
  dropped.
\<close>

theorem C6_whitespace_term_counterexample:
  "filteredBugs (\<lambda>c. [bugB]) () '' '' = [] \<and> filteredBugs (\<lambda>c. [bugB]) () '' '' \<noteq> [bugB]"
  by (simp add: search_eval)

text \<open>
  Claim C6, amended: the search with the empty needle is the identity. For any other
  needle, whitespace-only ones included, the result is the input exactly when every bug
  of the input matches the needle.
\<close>

theorem C6_empty_term_identity:
  "filteredBugs fb filters [] = fb filters
   \<and> (filteredBugs fb filters needle = fb filters
        \<longleftrightarrow> (\<forall>b \<in> set (fb filters). matchesSearch needle b))"
  by (simp add: filteredBugs_eq_filter matchesSearch_empty filter_id_conv)

theorem C6_empty_term_identity_witness:
  "filteredBugs (\<lambda>c. [bugA, bugB, bugC]) () [] = [bugA, bugB, bugC]
   \<and> filteredBugs (\<lambda>c. [bugA, bugC]) () '' '' = [bugA, bugC]
   \<and> matchesSearch '' '' bugA \<and> matchesSearch '' '' bugC"
proof -
  have m: "\<forall>b \<in> set [bugA, bugC]. matchesSearch '' '' b"
    by (simp add: search_eval)
  from C6_empty_term_identity [of "\<lambda>c. [bugA, bugB, bugC]" "()" "'' ''"]
  have 1: "filteredBugs (\<lambda>c. [bugA, bugB, bugC]) () [] = [bugA, bugB, bugC]"
    by simp
  from C6_empty_term_identity [of "\<lambda>c. [bugA, bugC]" "()" "'' ''"] m
  have 2: "filteredBugs (\<lambda>c. [bugA, bugC]) () '' '' = [bugA, bugC]"
    by simp
  from 1 2 m show ?thesis by simp
qed

text \<open>
  Claim C7: with all criteria unset the filter returns its input unchanged; an unset
  criterion constrains nothing; and the result is the subsequence of the input, in input
  order, of the bugs that meet every criterion that is set.
\<close>

theorem C7_filter_criteria:
  "filterBugs bugs noCriteria = bugs
   \<and> subseq (filterBugs bugs criteria) bugs
   \<and> filterBugs bugs criteria =
       filter (\<lambda>b. (\<forall>s. statusIs criteria = Some s \<longrightarrow> status b = s) \<and>
                   (\<forall>p. priorityIs criteria = Some p \<longrightarrow> priority b = p) \<and>
                   (\<forall>a. assigneeIs criteria = Some a \<longrightarrow> assignee b = a) \<and>
                   (\<forall>r. reproducibleIs criteria = Some r \<longrightarrow> reproducible b = r)) bugs"
proof -
  have m: "meets c v \<longleftrightarrow> (\<forall>w. c = Some w \<longrightarrow> v = w)" for c :: "'a option" and v
    by (cases c) (auto simp: meets_def)
  have "satisfies noCriteria b" for b
    by (simp add: satisfies_def noCriteria_def meets_def)
  then have "filterBugs bugs noCriteria = bugs"
    by (simp add: filterBugs_def)
  moreover have "subseq (filterBugs bugs criteria) bugs"
    by (simp add: filterBugs_def)
  moreover have "filterBugs bugs criteria =
       filter (\<lambda>b. (\<forall>s. statusIs criteria = Some s \<longrightarrow> status b = s) \<and>
                   (\<forall>p. priorityIs criteria = Some p \<longrightarrow> priority b = p) \<and>
                   (\<forall>a. assigneeIs criteria = Some a \<longrightarrow> assignee b = a) \<and>
                   (\<forall>r. reproducibleIs criteria = Some r \<longrightarrow> reproducible b = r)) bugs"
    unfolding filterBugs_def satisfies_def m ..
  ultimately show ?thesis by (intro conjI)
qed

theorem C7_filter_criteria_witness:
  "filterBugs [bugA, bugB, bugC] noCriteria = [bugA, bugB, bugC]
   \<and> filterBugs [bugA, bugB, bugC] (noCriteria\<lparr>statusIs := Some Open\<rparr>) = [bugA, bugC]
   \<and> filterBugs [bugA, bugB, bugC]
        (noCriteria\<lparr>statusIs := Some Open, reproducibleIs := Some True\<rparr>) = [bugC]
   \<and> subseq [bugA, bugC] [bugA, bugB, bugC]"
proof -
  have 1: "filterBugs [bugA, bugB, bugC] noCriteria = [bugA, bugB, bugC]"
    using C7_filter_criteria [of "[bugA, bugB, bugC]" noCriteria] by (rule conjunct1)
  have 2: "filterBugs [bugA, bugB, bugC] (noCriteria\<lparr>statusIs := Some Open\<rparr>) = [bugA, bugC]"
    by (simp add: search_eval filter_eval)
  have 3: "filterBugs [bugA, bugB, bugC]
        (noCriteria\<lparr>statusIs := Some Open, reproducibleIs := Some True\<rparr>) = [bugC]"
    by (simp add: search_eval filter_eval)
  have "subseq (filterBugs [bugA, bugB, bugC] (noCriteria\<lparr>statusIs := Some Open\<rparr>))
      [bugA, bugB, bugC]"
    using C7_filter_criteria [of "[bugA, bugB, bugC]" "noCriteria\<lparr>statusIs := Some Open\<rparr>"]
    by (rule conjunct1 [OF conjunct2])
  then have 4: "subseq [bugA, bugC] [bugA, bugB, bugC]"
    unfolding 2 .
  from 1 2 3 4 show ?thesis by (intro conjI)
qed

text \<open>
  Claim C9: whenever the criteria filter hands back a subsequence of the fetched bugs
  (its contract in the specification), the combined result of filter and search is a
  subsequence of the fetched bugs: the relative order is the input's, each returned bug
  is one of the input, and none occurs more often than in the input.
\<close>

theorem C9_result_subsequence:
  assumes "subseq (fb filters) bugs"
  shows "subseq (filteredBugs fb filters needle) bugs
         \<and> set (filteredBugs fb filters needle) \<subseteq> set bugs
         \<and> (\<forall>b. count_list (filteredBugs fb filters needle) b \<le> count_list bugs b)"
proof -
  have "subseq (filteredBugs fb filters needle) (fb filters)"
    by (simp add: filteredBugs_eq_filter)
  from this assms have s: "subseq (filteredBugs fb filters needle) bugs"
    by (rule subseq_order.order_trans)
  from s have "set (filteredBugs fb filters needle) \<subseteq> set bugs"
    by (rule set_subseq)
  with s show ?thesis
    by (simp add: count_list_subseq)
qed

theorem C9_result_subsequence_witness:
  "subseq (filter (\<lambda>b. assignee b = ''Alice'') [bugA, bugB, bugC, bugA]) [bugA, bugB, bugC, bugA]
   \<and> filteredBugs (\<lambda>a. filter (\<lambda>b. assignee b = a) [bugA, bugB, bugC, bugA]) ''Alice'' ''save''
       = [bugA, bugA]
   \<and> subseq [bugA, bugA] [bugA, bugB, bugC, bugA]"
proof -
  have h: "subseq ((\<lambda>a. filter (\<lambda>b. assignee b = a) [bugA, bugB, bugC, bugA]) ''Alice'')
      [bugA, bugB, bugC, bugA]"
    by simp
  have e: "filteredBugs (\<lambda>a. filter (\<lambda>b. assignee b = a) [bugA, bugB, bugC, bugA]) ''Alice''
        ''save'' = [bugA, bugA]"
    by (simp add: search_eval)
  from C9_result_subsequence
    [of "\<lambda>a. filter (\<lambda>b. assignee b = a) [bugA, bugB, bugC, bugA]" "''Alice''"
        "[bugA, bugB, bugC, bugA]" "''save''", OF h]
  have "subseq (filteredBugs (\<lambda>a. filter (\<lambda>b. assignee b = a) [bugA, bugB, bugC, bugA])
      ''Alice'' ''save'') [bugA, bugB, bugC, bugA]"
    by (rule conjunct1)
  then have s: "subseq [bugA, bugA] [bugA, bugB, bugC, bugA]"
    unfolding e .
  from h have "subseq (filter (\<lambda>b. assignee b = ''Alice'') [bugA, bugB, bugC, bugA])
      [bugA, bugB, bugC, bugA]"
    by simp
  from this e s show ?thesis by (intro conjI)
qed

section \<open>Properties of the controllers\<close>

lemma deleteFirst_absent:
  "\<forall>d \<in> set c. \<not> hasId j d \<Longrightarrow> deleteFirst j c = (c, None)"
  by (induction c) auto

lemma deleteFirst_at:
  "(\<forall>e \<in> set pre. \<not> hasId j e) \<Longrightarrow> hasId j d \<Longrightarrow>
     deleteFirst j (pre @ d # post) = (pre @ post, Some d)"
  by (induction pre) auto

lemma updateFirst_absent:
  "\<forall>d \<in> set c. \<not> hasId j d \<Longrightarrow> updateFirst dr j u c = (c, Inr None)"
  by (induction c) auto

lemma updateFirst_at:
  "(\<forall>e \<in> set pre. \<not> hasId j e) \<Longrightarrow> hasId j d \<Longrightarrow>
     updateFirst dr j u (pre @ d # post) =
       (case applyUpdate dr d u of
          Inl e \<Rightarrow> (pre @ d # post, Inl e)
        | Inr d' \<Rightarrow> (pre @ d' # post, Inr (Some d')))"
  by (induction pre) (auto split: sum.splits)

lemma first_with_id:
  "\<not> (\<forall>d \<in> set c. \<not> hasId j d) \<Longrightarrow>
     \<exists>pre d post. c = pre @ d # post \<and> (\<forall>e \<in> set pre. \<not> hasId j e) \<and> hasId j d"
proof -
  assume "\<not> (\<forall>d \<in> set c. \<not> hasId j d)"
  then have "\<exists>d \<in> set c. hasId j d" by simp
  from split_list_first_prop [OF this] obtain pre d post where
    "c = pre @ d # post" "hasId j d" "\<forall>e \<in> set pre. \<not> hasId j e"
    by blast
  then have "c = pre @ d # post \<and> (\<forall>e \<in> set pre. \<not> hasId j e) \<and> hasId j d"
    by simp
  then show ?thesis by blast
qed





lemma distinct_ids_others:
  assumes "distinct (ids (pre @ d # post))" and "hasId i d"
  shows "\<forall>e \<in> set (pre @ post). \<not> hasId i e"
proof
  fix e assume e: "e \<in> set (pre @ post)"
  from assms(1) have "map_of d ''_id'' \<notin> (\<lambda>x. map_of x ''_id'') ` set (pre @ post)"
    by (auto simp: ids_def)
  with e have "map_of e ''_id'' \<noteq> map_of d ''_id''"
    by (metis imageI)
  with assms(2) show "\<not> hasId i e"
    by (simp add: hasId_def)
qed

lemma deleteBug_run:
  "castId dr i = Some j \<Longrightarrow> reachable dr \<Longrightarrow>
     deleteBug dr c i =
       (fst (deleteFirst j c),
        Inr \<lparr>statusCode = 200, body = JObj [(''message'', JStr ''Bug deleted'')]\<rparr>)"
  by (simp add: deleteBug_def findByIdAndDelete_def split: prod.splits)

lemma updateBug_run:
  "castId dr i = Some j \<Longrightarrow> cast patch = Inr u \<Longrightarrow> reachable dr \<Longrightarrow>
     updateBug cast dr c i patch =
       (case updateFirst dr j u c of
          (c', Inl e) \<Rightarrow> (c', Inl e)
        | (c', Inr bug) \<Rightarrow>
            (c', Inr \<lparr>statusCode = 200,
                      body = (case bug of None \<Rightarrow> JNull | Some d \<Rightarrow> JObj d)\<rparr>))"
  by (simp add: updateBug_def findByIdAndUpdate_def)

lemma updateBug_at:
  assumes "castId dr i = Some j" and "cast patch = Inr u" and "reachable dr"
    and "\<forall>e \<in> set pre. \<not> hasId j e" and "hasId j d"
  shows "updateBug cast dr (pre @ d # post) i patch =
       (case applyUpdate dr d u of
          Inl e \<Rightarrow> (pre @ d # post, Inl e)
        | Inr d' \<Rightarrow> (pre @ d' # post, Inr \<lparr>statusCode = 200, body = JObj d'\<rparr>))"
  using assms(1-3)
  by (simp add: updateBug_def findByIdAndUpdate_def updateFirst_at [OF assms(4,5)]
        split: sum.splits)

lemma updateBug_sent:
  "snd (updateBug cast dr c i patch) = Inr r \<Longrightarrow> statusCode r = 200"
  by (auto simp: updateBug_def split: prod.splits sum.splits)



lemmas doc_eval =
  hasId_def docA_def docB_def driver24_def objectId_def hexDigit_def
  toLowerCase_def lowerChar_def char_of_def bit_0


lemma first_with_id_unique:
  assumes "c = pre @ d # post" and "\<forall>e \<in> set pre. \<not> hasId j e" and "hasId j d"
  shows "pre = takeWhile (\<lambda>e. \<not> hasId j e) c \<and> d # post = dropWhile (\<lambda>e. \<not> hasId j e) c"
  using assms by (simp add: takeWhile_append2 dropWhile_append2)

text \<open>
  Claim C1, as stated, fails: \<open>deleteBug\<close> never looks at what the driver resolved to.
  On a collection with no document of the identifier it answers 200 with the
  confirmation, and so does a second delete right after a first.
\<close>

theorem C1_delete_absent_counterexample:
  "deleteBug driver24 [docB] ''65a000000000000000000001''
     = ([docB], Inr \<lparr>statusCode = 200, body = JObj [(''message'', JStr ''Bug deleted'')]\<rparr>)
   \<and> deleteBug driver24 [docA, docB] ''65a000000000000000000001''
     = ([docB], Inr \<lparr>statusCode = 200, body = JObj [(''message'', JStr ''Bug deleted'')]\<rparr>)
   \<and> \<not> notFound \<lparr>statusCode = 200, body = JObj [(''message'', JStr ''Bug deleted'')]\<rparr>"
  by (simp add: doc_eval deleteBug_def findByIdAndDelete_def notFound_def)

text \<open>
  Claim C1, amended: \<open>deleteBug\<close> never answers with a not-found error. For a string that
  the driver cannot cast to an identifier (such as \<^verbatim>\<open>abc\<close>) the driver throws a
  \<^verbatim>\<open>CastError\<close>, and when the store does not answer it throws too: nothing is sent and the
  collection is unchanged. Whatever is sent is the confirmation
  \<^verbatim>\<open>{ message: 'Bug deleted' }\<close> with status 200. For every string that the driver casts to
  an identifier, the store answering, the confirmation is sent; when no document has the
  identifier the collection is unchanged; otherwise the first document with it is removed
  and the others stay, in order. With identifiers unique, no document of that identifier
  is left, and a second delete of the same identifier answers with the same confirmation
  and changes nothing.
\<close>

theorem C1_delete_outcomes:
  "(castId dr i = None \<longrightarrow> deleteBug dr c i = (c, Inl CastError))
   \<and> (castId dr i \<noteq> None \<and> \<not> reachable dr \<longrightarrow> deleteBug dr c i = (c, Inl StorageFault))
   \<and> (\<forall>r. snd (deleteBug dr c i) = Inr r \<longrightarrow>
        r = \<lparr>statusCode = 200, body = JObj [(''message'', JStr ''Bug deleted'')]\<rparr>
        \<and> \<not> notFound r)
   \<and> (\<forall>j. castId dr i = Some j \<and> reachable dr \<longrightarrow>
        snd (deleteBug dr c i)
          = Inr \<lparr>statusCode = 200, body = JObj [(''message'', JStr ''Bug deleted'')]\<rparr>
        \<and> ((\<forall>d \<in> set c. \<not> hasId j d) \<longrightarrow> fst (deleteBug dr c i) = c)
        \<and> (\<not> (\<forall>d \<in> set c. \<not> hasId j d) \<longrightarrow>
             (\<exists>pre d post. c = pre @ d # post \<and> (\<forall>e \<in> set pre. \<not> hasId j e) \<and> hasId j d
                \<and> fst (deleteBug dr c i) = pre @ post))
        \<and> (distinct (ids c) \<longrightarrow>
             (\<forall>d \<in> set (fst (deleteBug dr c i)). \<not> hasId j d)
             \<and> deleteBug dr (fst (deleteBug dr c i)) i =
                 (fst (deleteBug dr c i),
                  Inr \<lparr>statusCode = 200, body = JObj [(''message'', JStr ''Bug deleted'')]\<rparr>)))"
proof -
  have cast: "deleteBug dr c i = (c, Inl CastError)" if "castId dr i = None"
    using that by (simp add: deleteBug_def findByIdAndDelete_def)
  have fault: "deleteBug dr c i = (c, Inl StorageFault)"
    if "castId dr i \<noteq> None \<and> \<not> reachable dr"
    using that by (auto simp: deleteBug_def findByIdAndDelete_def)
  have sent: "r = \<lparr>statusCode = 200, body = JObj [(''message'', JStr ''Bug deleted'')]\<rparr>
        \<and> \<not> notFound r" if "snd (deleteBug dr c i) = Inr r" for r
  proof (cases "findByIdAndDelete dr c i")
    case (Pair c' out)
    with that show ?thesis
      by (cases out) (auto simp: deleteBug_def notFound_def)
  qed
  have run: "snd (deleteBug dr c i)
          = Inr \<lparr>statusCode = 200, body = JObj [(''message'', JStr ''Bug deleted'')]\<rparr>
        \<and> ((\<forall>d \<in> set c. \<not> hasId j d) \<longrightarrow> fst (deleteBug dr c i) = c)
        \<and> (\<not> (\<forall>d \<in> set c. \<not> hasId j d) \<longrightarrow>
             (\<exists>pre d post. c = pre @ d # post \<and> (\<forall>e \<in> set pre. \<not> hasId j e) \<and> hasId j d
                \<and> fst (deleteBug dr c i) = pre @ post))
        \<and> (distinct (ids c) \<longrightarrow>
             (\<forall>d \<in> set (fst (deleteBug dr c i)). \<not> hasId j d)
             \<and> deleteBug dr (fst (deleteBug dr c i)) i =
                 (fst (deleteBug dr c i),
                  Inr \<lparr>statusCode = 200, body = JObj [(''message'', JStr ''Bug deleted'')]\<rparr>))"
    if ok: "castId dr i = Some j \<and> reachable dr" for j
  proof -
    from ok have j: "castId dr i = Some j" and up: "reachable dr"
      by simp_all
    note del = deleteBug_run [OF j up]
    have r: "snd (deleteBug dr c i)
          = Inr \<lparr>statusCode = 200, body = JObj [(''message'', JStr ''Bug deleted'')]\<rparr>"
      by (simp add: del)
    have absent: "fst (deleteBug dr c i) = c" if "\<forall>d \<in> set c. \<not> hasId j d" for c
      using that by (simp add: del deleteFirst_absent)
    have present: "\<exists>pre d post. c = pre @ d # post \<and> (\<forall>e \<in> set pre. \<not> hasId j e) \<and> hasId j d
                \<and> fst (deleteBug dr c i) = pre @ post" if "\<not> (\<forall>d \<in> set c. \<not> hasId j d)"
    proof -
      from first_with_id [OF that] obtain pre d post where
        p: "c = pre @ d # post" "\<forall>e \<in> set pre. \<not> hasId j e" "hasId j d"
        by blast
      then have "c = pre @ d # post \<and> (\<forall>e \<in> set pre. \<not> hasId j e) \<and> hasId j d
                \<and> fst (deleteBug dr c i) = pre @ post"
        by (simp add: del deleteFirst_at)
      then show ?thesis by blast
    qed
    have gone: "\<forall>d \<in> set (fst (deleteBug dr c i)). \<not> hasId j d" if u: "distinct (ids c)"
    proof (cases "\<forall>d \<in> set c. \<not> hasId j d")
      case True
      then show ?thesis by (simp add: absent)
    next
      case False
      from present [OF False] obtain pre d post where
        p: "c = pre @ d # post" "hasId j d" "fst (deleteBug dr c i) = pre @ post"
        by blast
      from u p(1) have "distinct (ids (pre @ d # post))" by simp
      from distinct_ids_others [OF this p(2)] p(3) show ?thesis by simp
    qed
    have again: "deleteBug dr (fst (deleteBug dr c i)) i =
                 (fst (deleteBug dr c i),
                  Inr \<lparr>statusCode = 200, body = JObj [(''message'', JStr ''Bug deleted'')]\<rparr>)"
      if u: "distinct (ids c)"
      using absent [OF gone [OF u]] deleteBug_run [OF j up, of "fst (deleteBug dr c i)"]
      by (simp add: prod_eq_iff)
    from r absent present gone again show ?thesis
      by (intro conjI impI) simp_all
  qed
  have 1: "castId dr i = None \<longrightarrow> deleteBug dr c i = (c, Inl CastError)"
    by (rule impI) (rule cast)
  have 2: "castId dr i \<noteq> None \<and> \<not> reachable dr \<longrightarrow> deleteBug dr c i = (c, Inl StorageFault)"
    by (rule impI) (rule fault)
  have 3: "\<forall>r. snd (deleteBug dr c i) = Inr r \<longrightarrow>
        r = \<lparr>statusCode = 200, body = JObj [(''message'', JStr ''Bug deleted'')]\<rparr>
        \<and> \<not> notFound r"
    by (intro allI impI) (rule sent)
  from run have 4: "\<forall>j. castId dr i = Some j \<and> reachable dr \<longrightarrow>
        snd (deleteBug dr c i)
          = Inr \<lparr>statusCode = 200, body = JObj [(''message'', JStr ''Bug deleted'')]\<rparr>
        \<and> ((\<forall>d \<in> set c. \<not> hasId j d) \<longrightarrow> fst (deleteBug dr c i) = c)
        \<and> (\<not> (\<forall>d \<in> set c. \<not> hasId j d) \<longrightarrow>
             (\<exists>pre d post. c = pre @ d # post \<and> (\<forall>e \<in> set pre. \<not> hasId j e) \<and> hasId j d
                \<and> fst (deleteBug dr c i) = pre @ post))
        \<and> (distinct (ids c) \<longrightarrow>
             (\<forall>d \<in> set (fst (deleteBug dr c i)). \<not> hasId j d)
             \<and> deleteBug dr (fst (deleteBug dr c i)) i =
                 (fst (deleteBug dr c i),
                  Inr \<lparr>statusCode = 200, body = JObj [(''message'', JStr ''Bug deleted'')]\<rparr>))"
    by (rule_tac allI, rule_tac impI)
  from 1 2 3 4 show ?thesis
    by (intro conjI)
qed

theorem C1_delete_outcomes_witness:
  "castId driver24 ''abc'' = None
   \<and> deleteBug driver24 [docB] ''abc'' = ([docB], Inl CastError)
   \<and> castId driver24 ''65a000000000000000000001'' = Some ''65a000000000000000000001''
   \<and> reachable driver24
   \<and> distinct (ids [docA, docB])
   \<and> hasId ''65a000000000000000000001'' docA
   \<and> \<not> hasId ''65a000000000000000000001'' docB
   \<and> deleteBug driver24 [docA, docB] ''65a000000000000000000001''
       = ([docB], Inr \<lparr>statusCode = 200, body = JObj [(''message'', JStr ''Bug deleted'')]\<rparr>)
   \<and> deleteBug driver24 [docB] ''65a000000000000000000001''
       = ([docB], Inr \<lparr>statusCode = 200, body = JObj [(''message'', JStr ''Bug deleted'')]\<rparr>)
   \<and> castId (driver24\<lparr>reachable := False\<rparr>) ''65a000000000000000000001'' \<noteq> None
   \<and> \<not> reachable (driver24\<lparr>reachable := False\<rparr>)
   \<and> deleteBug (driver24\<lparr>reachable := False\<rparr>) [docA, docB] ''65a000000000000000000001''
       = ([docA, docB], Inl StorageFault)"
proof -
  have n: "castId driver24 ''abc'' = None"
    by (simp add: doc_eval)
  have j: "castId driver24 ''65a000000000000000000001'' = Some ''65a000000000000000000001''"
    by (simp add: doc_eval)
  have up: "reachable driver24"
    by (simp add: doc_eval)
  have u: "distinct (ids [docA, docB])"
    by (simp add: doc_eval ids_def)
  have p: "hasId ''65a000000000000000000001'' docA"
    by (simp add: doc_eval)
  have a: "\<not> hasId ''65a000000000000000000001'' docB"
    by (simp add: doc_eval)
  have j': "castId (driver24\<lparr>reachable := False\<rparr>) ''65a000000000000000000001'' \<noteq> None"
    by (simp add: doc_eval)
  have down: "\<not> reachable (driver24\<lparr>reachable := False\<rparr>)"
    by simp
  have f: "fst (deleteBug driver24 [docA, docB] ''65a000000000000000000001'') = [docB]"
    by (simp add: deleteBug_run [OF j up] p)
  have 0: "deleteBug driver24 [docB] ''abc'' = ([docB], Inl CastError)"
    using C1_delete_outcomes [of driver24 "''abc''" "[docB]", THEN conjunct1] n
    by (rule mp)
  note run = C1_delete_outcomes [of driver24 "''65a000000000000000000001''" "[docA, docB]",
      THEN conjunct2, THEN conjunct2, THEN conjunct2, THEN spec, THEN mp, OF conjI, OF j up]
  from run [THEN conjunct1] f
  have 1: "deleteBug driver24 [docA, docB] ''65a000000000000000000001''
       = ([docB], Inr \<lparr>statusCode = 200, body = JObj [(''message'', JStr ''Bug deleted'')]\<rparr>)"
    by (simp only: prod_eq_iff fst_conv snd_conv simp_thms)
  from run [THEN conjunct2, THEN conjunct2, THEN conjunct2, THEN mp, OF u, THEN conjunct2]
  have 2: "deleteBug driver24 [docB] ''65a000000000000000000001''
       = ([docB], Inr \<lparr>statusCode = 200, body = JObj [(''message'', JStr ''Bug deleted'')]\<rparr>)"
    by (simp only: f)
  have 3: "deleteBug (driver24\<lparr>reachable := False\<rparr>) [docA, docB] ''65a000000000000000000001''
       = ([docA, docB], Inl StorageFault)"
    using C1_delete_outcomes [of "driver24\<lparr>reachable := False\<rparr>"
        "''65a000000000000000000001''" "[docA, docB]", THEN conjunct2, THEN conjunct1]
      conjI [OF j' down]
    by (rule mp)
  from n 0 j up u p a 1 2 j' down 3 show ?thesis by (intro conjI)
qed

text \<open>
  Claim C2, as stated, fails: when no document has the identifier the driver resolves to
  \<^verbatim>\<open>null\<close>, which \<open>updateBug\<close> sends with status 200; there is no not-found answer.
\<close>

theorem C2_update_absent_counterexample:
  "updateBug Inr driver24 [docB] ''65a000000000000000000001'' [(''status'', JStr ''resolved'')]
     = ([docB], Inr \<lparr>statusCode = 200, body = JNull\<rparr>)
   \<and> \<not> notFound \<lparr>statusCode = 200, body = JNull\<rparr>"
  by (simp add: doc_eval updateBug_def findByIdAndUpdate_def notFound_def)

text \<open>
  Claim C2, amended: \<open>updateBug\<close> never answers with a not-found error. For a string that
  the driver cannot cast to an identifier it throws a \<^verbatim>\<open>CastError\<close>; for a patch that the
  schema cannot cast it throws what the schema throws; when the store does not answer it
  throws too: nothing is sent and the collection is unchanged. Whatever is sent has
  status 200. For every string that the driver casts to an identifier and every patch
  that the schema casts, the store answering: when no document has the identifier, the
  answer is 200 with the body \<^verbatim>\<open>null\<close> and the collection is unchanged. Only when a
  document has the identifier is the patch applied to the first such document: a patch of
  plain fields that leaves \<^verbatim>\<open>_id\<close> as it is, is merged onto the document, the merged
  document stored in its place and returned with status 200; a patch of plain fields that
  would change \<^verbatim>\<open>_id\<close> is refused by the store, nothing is sent and the collection is
  unchanged; a patch with an operator or a path is what the driver makes of it.
\<close>

theorem C2_update_outcomes:
  "(castId dr i = None \<longrightarrow> updateBug cast dr c i patch = (c, Inl CastError))
   \<and> (\<forall>e. castId dr i \<noteq> None \<and> cast patch = Inl e \<longrightarrow>
        updateBug cast dr c i patch = (c, Inl e))
   \<and> (\<forall>u. castId dr i \<noteq> None \<and> cast patch = Inr u \<and> \<not> reachable dr \<longrightarrow>
        updateBug cast dr c i patch = (c, Inl StorageFault))
   \<and> (\<forall>r. snd (updateBug cast dr c i patch) = Inr r \<longrightarrow> statusCode r = 200 \<and> \<not> notFound r)
   \<and> (\<forall>j u. castId dr i = Some j \<and> cast patch = Inr u \<and> reachable dr \<longrightarrow>
        ((\<forall>d \<in> set c. \<not> hasId j d) \<longrightarrow>
           updateBug cast dr c i patch = (c, Inr \<lparr>statusCode = 200, body = JNull\<rparr>))
        \<and> (\<not> (\<forall>d \<in> set c. \<not> hasId j d) \<longrightarrow>
             (\<exists>pre d post. c = pre @ d # post \<and> (\<forall>e \<in> set pre. \<not> hasId j e) \<and> hasId j d
                \<and> (list_all (\<lambda>(k, v). plainKey k) u \<and> \<not> changesId d u \<longrightarrow>
                     updateBug cast dr c i patch =
                       (pre @ assign d u # post,
                        Inr \<lparr>statusCode = 200, body = JObj (assign d u)\<rparr>))
                \<and> (list_all (\<lambda>(k, v). plainKey k) u \<and> changesId d u \<longrightarrow>
                     updateBug cast dr c i patch = (c, Inl ImmutableField))
                \<and> (\<not> list_all (\<lambda>(k, v). plainKey k) u \<longrightarrow>
                     updateBug cast dr c i patch =
                       (case operators dr d u of
                          Inl e \<Rightarrow> (c, Inl e)
                        | Inr d' \<Rightarrow>
                            (pre @ d' # post, Inr \<lparr>statusCode = 200, body = JObj d'\<rparr>))))))"
proof -
  have 1: "castId dr i = None \<longrightarrow> updateBug cast dr c i patch = (c, Inl CastError)"
    by (simp add: updateBug_def findByIdAndUpdate_def)
  have 2: "\<forall>e. castId dr i \<noteq> None \<and> cast patch = Inl e \<longrightarrow>
        updateBug cast dr c i patch = (c, Inl e)"
    by (auto simp: updateBug_def findByIdAndUpdate_def)
  have 3: "\<forall>u. castId dr i \<noteq> None \<and> cast patch = Inr u \<and> \<not> reachable dr \<longrightarrow>
        updateBug cast dr c i patch = (c, Inl StorageFault)"
    by (auto simp: updateBug_def findByIdAndUpdate_def)
  have 4: "\<forall>r. snd (updateBug cast dr c i patch) = Inr r \<longrightarrow> statusCode r = 200 \<and> \<not> notFound r"
    by (auto simp: notFound_def dest: updateBug_sent)
  have run: "((\<forall>d \<in> set c. \<not> hasId j d) \<longrightarrow>
           updateBug cast dr c i patch = (c, Inr \<lparr>statusCode = 200, body = JNull\<rparr>))
        \<and> (\<not> (\<forall>d \<in> set c. \<not> hasId j d) \<longrightarrow>
             (\<exists>pre d post. c = pre @ d # post \<and> (\<forall>e \<in> set pre. \<not> hasId j e) \<and> hasId j d
                \<and> (list_all (\<lambda>(k, v). plainKey k) u \<and> \<not> changesId d u \<longrightarrow>
                     updateBug cast dr c i patch =
                       (pre @ assign d u # post,
                        Inr \<lparr>statusCode = 200, body = JObj (assign d u)\<rparr>))
                \<and> (list_all (\<lambda>(k, v). plainKey k) u \<and> changesId d u \<longrightarrow>
                     updateBug cast dr c i patch = (c, Inl ImmutableField))
                \<and> (\<not> list_all (\<lambda>(k, v). plainKey k) u \<longrightarrow>
                     updateBug cast dr c i patch =
                       (case operators dr d u of
                          Inl e \<Rightarrow> (c, Inl e)
                        | Inr d' \<Rightarrow>
                            (pre @ d' # post, Inr \<lparr>statusCode = 200, body = JObj d'\<rparr>)))))"
    if ok: "castId dr i = Some j \<and> cast patch = Inr u \<and> reachable dr" for j u
  proof -
    from ok have j: "castId dr i = Some j" and u: "cast patch = Inr u" and up: "reachable dr"
      by simp_all
    have absent: "updateBug cast dr c i patch = (c, Inr \<lparr>statusCode = 200, body = JNull\<rparr>)"
      if "\<forall>d \<in> set c. \<not> hasId j d"
      using j u up that by (simp add: updateBug_def findByIdAndUpdate_def updateFirst_absent)
    have present: "\<exists>pre d post. c = pre @ d # post \<and> (\<forall>e \<in> set pre. \<not> hasId j e) \<and> hasId j d
                \<and> (list_all (\<lambda>(k, v). plainKey k) u \<and> \<not> changesId d u \<longrightarrow>
                     updateBug cast dr c i patch =
                       (pre @ assign d u # post,
                        Inr \<lparr>statusCode = 200, body = JObj (assign d u)\<rparr>))
                \<and> (list_all (\<lambda>(k, v). plainKey k) u \<and> changesId d u \<longrightarrow>
                     updateBug cast dr c i patch = (c, Inl ImmutableField))
                \<and> (\<not> list_all (\<lambda>(k, v). plainKey k) u \<longrightarrow>
                     updateBug cast dr c i patch =
                       (case operators dr d u of
                          Inl e \<Rightarrow> (c, Inl e)
                        | Inr d' \<Rightarrow>
                            (pre @ d' # post, Inr \<lparr>statusCode = 200, body = JObj d'\<rparr>)))"
      if "\<not> (\<forall>d \<in> set c. \<not> hasId j d)"
    proof -
      from first_with_id [OF that] obtain pre d post where
        p: "c = pre @ d # post" "\<forall>e \<in> set pre. \<not> hasId j e" "hasId j d"
        by blast
      note at = updateBug_at [where cast = cast and patch = patch and post = post,
          OF j u up p(2,3), folded p(1)]
      have a: "list_all (\<lambda>(k, v). plainKey k) u \<and> \<not> changesId d u \<longrightarrow>
                     updateBug cast dr c i patch =
                       (pre @ assign d u # post,
                        Inr \<lparr>statusCode = 200, body = JObj (assign d u)\<rparr>)"
        by (simp add: at applyUpdate_def)
      have b: "list_all (\<lambda>(k, v). plainKey k) u \<and> changesId d u \<longrightarrow>
                     updateBug cast dr c i patch = (c, Inl ImmutableField)"
        by (simp add: at applyUpdate_def)
      have o: "\<not> list_all (\<lambda>(k, v). plainKey k) u \<longrightarrow>
                     updateBug cast dr c i patch =
                       (case operators dr d u of
                          Inl e \<Rightarrow> (c, Inl e)
                        | Inr d' \<Rightarrow>
                            (pre @ d' # post, Inr \<lparr>statusCode = 200, body = JObj d'\<rparr>))"
        by (simp add: at applyUpdate_def)
      from p a b o show ?thesis
        by (intro exI [of _ pre] exI [of _ d] exI [of _ post] conjI)
    qed
    show ?thesis
    proof (rule conjI)
      show "(\<forall>d \<in> set c. \<not> hasId j d) \<longrightarrow>
           updateBug cast dr c i patch = (c, Inr \<lparr>statusCode = 200, body = JNull\<rparr>)"
        by (rule impI) (rule absent)
    next
      show "\<not> (\<forall>d \<in> set c. \<not> hasId j d) \<longrightarrow>
             (\<exists>pre d post. c = pre @ d # post \<and> (\<forall>e \<in> set pre. \<not> hasId j e) \<and> hasId j d
                \<and> (list_all (\<lambda>(k, v). plainKey k) u \<and> \<not> changesId d u \<longrightarrow>
                     updateBug cast dr c i patch =
                       (pre @ assign d u # post,
                        Inr \<lparr>statusCode = 200, body = JObj (assign d u)\<rparr>))
                \<and> (list_all (\<lambda>(k, v). plainKey k) u \<and> changesId d u \<longrightarrow>
                     updateBug cast dr c i patch = (c, Inl ImmutableField))
                \<and> (\<not> list_all (\<lambda>(k, v). plainKey k) u \<longrightarrow>
                     updateBug cast dr c i patch =
                       (case operators dr d u of
                          Inl e \<Rightarrow> (c, Inl e)
                        | Inr d' \<Rightarrow>
                            (pre @ d' # post, Inr \<lparr>statusCode = 200, body = JObj d'\<rparr>))))"
        by (rule impI) (rule present)
    qed
  qed
  have 5: "\<forall>j u. castId dr i = Some j \<and> cast patch = Inr u \<and> reachable dr \<longrightarrow>
        ((\<forall>d \<in> set c. \<not> hasId j d) \<longrightarrow>
           updateBug cast dr c i patch = (c, Inr \<lparr>statusCode = 200, body = JNull\<rparr>))
        \<and> (\<not> (\<forall>d \<in> set c. \<not> hasId j d) \<longrightarrow>
             (\<exists>pre d post. c = pre @ d # post \<and> (\<forall>e \<in> set pre. \<not> hasId j e) \<and> hasId j d
                \<and> (list_all (\<lambda>(k, v). plainKey k) u \<and> \<not> changesId d u \<longrightarrow>
                     updateBug cast dr c i patch =
                       (pre @ assign d u # post,
                        Inr \<lparr>statusCode = 200, body = JObj (assign d u)\<rparr>))
                \<and> (list_all (\<lambda>(k, v). plainKey k) u \<and> changesId d u \<longrightarrow>
                     updateBug cast dr c i patch = (c, Inl ImmutableField))
                \<and> (\<not> list_all (\<lambda>(k, v). plainKey k) u \<longrightarrow>
                     updateBug cast dr c i patch =
                       (case operators dr d u of
                          Inl e \<Rightarrow> (c, Inl e)
                        | Inr d' \<Rightarrow>
                            (pre @ d' # post, Inr \<lparr>statusCode = 200, body = JObj d'\<rparr>)))))"
    using run by (rule_tac allI, rule_tac allI, rule_tac impI)
  from 1 2 3 4 5 show ?thesis
    by (intro conjI)
qed

theorem C2_update_outcomes_witness:
  "castId driver24 ''abc'' = None
   \<and> updateBug Inr driver24 [docB] ''abc'' [(''status'', JStr ''resolved'')]
       = ([docB], Inl CastError)
   \<and> castId driver24 ''65a000000000000000000001'' = Some ''65a000000000000000000001''
   \<and> reachable driver24
   \<and> \<not> hasId ''65a000000000000000000001'' docB
   \<and> updateBug Inr driver24 [docB] ''65a000000000000000000001'' [(''status'', JStr ''resolved'')]
       = ([docB], Inr \<lparr>statusCode = 200, body = JNull\<rparr>)
   \<and> castId driver24 ''65a000000000000000000002'' = Some ''65a000000000000000000002''
   \<and> \<not> hasId ''65a000000000000000000002'' docA
   \<and> hasId ''65a000000000000000000002'' docB
   \<and> list_all (\<lambda>(k, v). plainKey k) [(''status'', JStr ''resolved'')]
   \<and> \<not> changesId docB [(''status'', JStr ''resolved'')]
   \<and> updateBug Inr driver24 [docA, docB] ''65a000000000000000000002''
         [(''status'', JStr ''resolved'')]
       = ([docA, [(''_id'', JStr ''65a000000000000000000002''), (''title'', JStr ''Typo''),
                  (''status'', JStr ''resolved''), (''createdAt'', JNum 2000),
                  (''updatedAt'', JNum 2000)]],
          Inr \<lparr>statusCode = 200,
           body = JObj [(''_id'', JStr ''65a000000000000000000002''), (''title'', JStr ''Typo''),
                  (''status'', JStr ''resolved''), (''createdAt'', JNum 2000),
                  (''updatedAt'', JNum 2000)]\<rparr>)
   \<and> list_all (\<lambda>(k, v). plainKey k) [(''_id'', JStr ''65a000000000000000000009'')]
   \<and> changesId docB [(''_id'', JStr ''65a000000000000000000009'')]
   \<and> updateBug Inr driver24 [docA, docB] ''65a000000000000000000002''
         [(''_id'', JStr ''65a000000000000000000009'')]
       = ([docA, docB], Inl ImmutableField)"
proof -
  have n: "castId driver24 ''abc'' = None"
    by (simp add: doc_eval)
  have j1: "castId driver24 ''65a000000000000000000001'' = Some ''65a000000000000000000001''"
    by (simp add: doc_eval)
  have j2: "castId driver24 ''65a000000000000000000002'' = Some ''65a000000000000000000002''"
    by (simp add: doc_eval)
  have up: "reachable driver24"
    by (simp add: doc_eval)
  have a: "\<not> hasId ''65a000000000000000000001'' docB"
    by (simp add: doc_eval)
  have a2: "\<not> hasId ''65a000000000000000000002'' docA"
    by (simp add: doc_eval)
  have p: "hasId ''65a000000000000000000002'' docB"
    by (simp add: doc_eval)
  have pl: "list_all (\<lambda>(k, v). plainKey k) [(''status'', JStr ''resolved'')]"
    by (simp add: plainKey_def)
  have same: "\<not> changesId docB [(''status'', JStr ''resolved'')]"
    by (simp add: changesId_def)
  have pl': "list_all (\<lambda>(k, v). plainKey k) [(''_id'', JStr ''65a000000000000000000009'')]"
    by (simp add: plainKey_def)
  have other: "changesId docB [(''_id'', JStr ''65a000000000000000000009'')]"
    by (simp add: changesId_def docB_def)
  have merged: "assign docB [(''status'', JStr ''resolved'')]
      = [(''_id'', JStr ''65a000000000000000000002''), (''title'', JStr ''Typo''),
         (''status'', JStr ''resolved''), (''createdAt'', JNum 2000),
         (''updatedAt'', JNum 2000)]"
    by (simp add: assign_def docB_def)
  have 0: "updateBug Inr driver24 [docB] ''abc'' [(''status'', JStr ''resolved'')]
       = ([docB], Inl CastError)"
    using C2_update_outcomes [of driver24 "''abc''" Inr "[docB]"
        "[(''status'', JStr ''resolved'')]", THEN conjunct1] n
    by (rule mp)
  have all1: "\<forall>d \<in> set [docB]. \<not> hasId ''65a000000000000000000001'' d"
    using a by simp
  have eq: "(Inr :: document \<Rightarrow> thrown + document) u = Inr u" for u
    by (rule refl)
  note absent = C2_update_outcomes [of driver24 "''65a000000000000000000001''" Inr "[docB]"
      "[(''status'', JStr ''resolved'')]",
      THEN conjunct2, THEN conjunct2, THEN conjunct2, THEN conjunct2, THEN spec, THEN spec,
      THEN mp, OF conjI [OF j1 conjI [OF eq up]], THEN conjunct1, THEN mp, OF all1]
  have some: "\<not> (\<forall>d \<in> set [docA, docB]. \<not> hasId ''65a000000000000000000002'' d)"
    using p by simp
  have first: "takeWhile (\<lambda>e. \<not> hasId ''65a000000000000000000002'' e) [docA, docB] = [docA]"
      "dropWhile (\<lambda>e. \<not> hasId ''65a000000000000000000002'' e) [docA, docB] = [docB]"
    using a2 p by simp_all
  from C2_update_outcomes [of driver24 "''65a000000000000000000002''" Inr "[docA, docB]"
      "[(''status'', JStr ''resolved'')]",
      THEN conjunct2, THEN conjunct2, THEN conjunct2, THEN conjunct2, THEN spec, THEN spec,
      THEN mp, OF conjI [OF j2 conjI [OF eq up]], THEN conjunct2, THEN mp, OF some]
  obtain pre d post where
    s: "[docA, docB] = pre @ d # post" "\<forall>e \<in> set pre. \<not> hasId ''65a000000000000000000002'' e"
       "hasId ''65a000000000000000000002'' d"
    and m: "list_all (\<lambda>(k, v). plainKey k) [(''status'', JStr ''resolved'')]
              \<and> \<not> changesId d [(''status'', JStr ''resolved'')] \<longrightarrow>
            updateBug Inr driver24 [docA, docB] ''65a000000000000000000002''
                [(''status'', JStr ''resolved'')] =
              (pre @ assign d [(''status'', JStr ''resolved'')] # post,
               Inr \<lparr>statusCode = 200, body = JObj (assign d [(''status'', JStr ''resolved'')])\<rparr>)"
    by (elim exE conjE)
  from first_with_id_unique [OF s] first have shape: "pre = [docA]" "d = docB" "post = []"
    by simp_all
  from m [unfolded shape, THEN mp, OF conjI [OF pl same]]
  have 2: "updateBug Inr driver24 [docA, docB] ''65a000000000000000000002''
         [(''status'', JStr ''resolved'')]
       = ([docA, [(''_id'', JStr ''65a000000000000000000002''), (''title'', JStr ''Typo''),
                  (''status'', JStr ''resolved''), (''createdAt'', JNum 2000),
                  (''updatedAt'', JNum 2000)]],
          Inr \<lparr>statusCode = 200,
           body = JObj [(''_id'', JStr ''65a000000000000000000002''), (''title'', JStr ''Typo''),
                  (''status'', JStr ''resolved''), (''createdAt'', JNum 2000),
                  (''updatedAt'', JNum 2000)]\<rparr>)"
    by (simp only: merged append_Cons append_Nil)
  from C2_update_outcomes [of driver24 "''65a000000000000000000002''" Inr "[docA, docB]"
      "[(''_id'', JStr ''65a000000000000000000009'')]",
      THEN conjunct2, THEN conjunct2, THEN conjunct2, THEN conjunct2, THEN spec, THEN spec,
      THEN mp, OF conjI [OF j2 conjI [OF eq up]], THEN conjunct2, THEN mp, OF some]
  obtain pre' d' post' where
    s': "[docA, docB] = pre' @ d' # post'"
       "\<forall>e \<in> set pre'. \<not> hasId ''65a000000000000000000002'' e"
       "hasId ''65a000000000000000000002'' d'"
    and m': "list_all (\<lambda>(k, v). plainKey k) [(''_id'', JStr ''65a000000000000000000009'')]
              \<and> changesId d' [(''_id'', JStr ''65a000000000000000000009'')] \<longrightarrow>
            updateBug Inr driver24 [docA, docB] ''65a000000000000000000002''
                [(''_id'', JStr ''65a000000000000000000009'')] = ([docA, docB], Inl ImmutableField)"
    by (elim exE conjE)
  from first_with_id_unique [OF s'] first have shape': "d' = docB"
    by simp
  from m' [unfolded shape', THEN mp, OF conjI [OF pl' other]]
  have 3: "updateBug Inr driver24 [docA, docB] ''65a000000000000000000002''
         [(''_id'', JStr ''65a000000000000000000009'')]
       = ([docA, docB], Inl ImmutableField)" .
  from n 0 j1 up a absent j2 a2 p pl same 2 pl' other 3 show ?thesis
    by (intro conjI)
qed




section \<open>Properties of the form's schema\<close>

lemma issuesOf_Inl [simp]: "issuesOf (Inl e) = e"
  by (simp add: issuesOf_def)

lemma issuesOf_Inr [simp]: "issuesOf (Inr x) = []"
  by (simp add: issuesOf_def)

lemma issuesOf_ap: "issuesOf (ap f x) = issuesOf f @ issuesOf x"
  by (cases f; cases x) simp_all

lemma ap_not_empty: "f \<noteq> Inl [] \<Longrightarrow> x \<noteq> Inl [] \<Longrightarrow> ap f x \<noteq> Inl []"
  by (cases f; cases x) simp_all

lemma issuesOf_Nil_iff: "r \<noteq> Inl [] \<Longrightarrow> issuesOf r = [] \<longleftrightarrow> (\<exists>d. r = Inr d)"
  by (cases r) simp_all

lemma z_string_not_empty: "z_string mn mx p v \<noteq> Inl []"
  by (auto simp: z_string_def Let_def split: option.splits json.splits)

lemma z_string_paths: "i \<in> set (issuesOf (z_string mn mx p v)) \<Longrightarrow> path i = p"
  by (auto simp: z_string_def Let_def split: option.splits json.splits if_splits)

lemma z_string_valid:
  "issuesOf (z_string (Some (lo, m)) hi p v) = [] \<longleftrightarrow> textOfLength lo (map_option fst hi) v"
  by (auto simp: z_string_def Let_def textOfLength_def split: option.splits json.splits)

lemma z_string_plain_valid:
  "issuesOf (z_string None None p v) = [] \<longleftrightarrow> (\<exists>s. v = Some (JStr s))"
  by (auto simp: z_string_def Let_def split: option.splits json.splits)

lemma z_enum_not_empty: "z_enum vs p v \<noteq> Inl []"
  by (auto simp: z_enum_def split: option.splits json.splits)

lemma z_enum_paths: "i \<in> set (issuesOf (z_enum vs p v)) \<Longrightarrow> path i = p"
  by (auto simp: z_enum_def split: option.splits json.splits)

lemma z_enum_valid:
  "issuesOf (z_enum vs p v) = [] \<longleftrightarrow> (\<exists>s. v = Some (JStr s) \<and> s \<in> fst ` set vs)"
proof (cases v)
  case None
  then show ?thesis by (simp add: z_enum_def)
next
  case (Some x)
  show ?thesis
  proof (cases x)
    case (JStr s)
    have "map_of vs s = None \<longleftrightarrow> s \<notin> fst ` set vs"
      by (rule map_of_eq_None_iff)
    with Some JStr show ?thesis
      by (cases "map_of vs s") (simp_all add: z_enum_def)
  qed (simp_all add: Some z_enum_def)
qed

lemma z_boolean_not_empty: "z_boolean p v \<noteq> Inl []"
  by (auto simp: z_boolean_def split: option.splits json.splits)

lemma z_boolean_paths: "i \<in> set (issuesOf (z_boolean p v)) \<Longrightarrow> path i = p"
  by (auto simp: z_boolean_def split: option.splits json.splits)

lemma z_boolean_valid:
  "issuesOf (z_boolean p v) = [] \<longleftrightarrow> (case v of Some (JBool b) \<Rightarrow> True | _ \<Rightarrow> False)"
  by (auto simp: z_boolean_def split: option.splits json.splits)

lemma z_array_items_not_empty: "z_array_items (z_string mn mx) p n xs \<noteq> Inl []"
  by (induction xs arbitrary: n) (simp_all add: ap_not_empty z_string_not_empty)

lemma z_array_items_paths:
  "i \<in> set (issuesOf (z_array_items (z_string mn mx) p n xs)) \<Longrightarrow> \<exists>q. path i = p @ q"
proof (induction xs arbitrary: n)
  case Nil
  then show ?case by simp
next
  case (Cons x xs)
  from Cons.prems consider
    "i \<in> set (issuesOf (z_string mn mx (p @ [Index n]) (Some x)))"
    | "i \<in> set (issuesOf (z_array_items (z_string mn mx) p (Suc n) xs))"
    by (auto simp: issuesOf_ap)
  then show ?case
  proof cases
    case 1
    then have "path i = p @ [Index n]" by (rule z_string_paths)
    then show ?thesis by blast
  next
    case 2
    then show ?thesis by (rule Cons.IH)
  qed
qed

lemma z_array_items_valid:
  "issuesOf (z_array_items (z_string None None) p n xs) = [] \<longleftrightarrow> list_all isText xs"
proof (induction xs arbitrary: n)
  case Nil
  then show ?case by simp
next
  case (Cons x xs)
  have "(\<exists>s. Some x = Some (JStr s)) \<longleftrightarrow> isText x"
    by (cases x) (simp_all add: isText_def)
  with Cons.IH [of "Suc n"] show ?case
    by (simp add: issuesOf_ap z_string_plain_valid)
qed

lemma tags_not_empty: "z_default (z_array (z_string mn mx)) (JArr []) p v \<noteq> Inl []"
  by (auto simp: z_default_def z_array_def z_array_items_not_empty
      split: option.splits json.splits)

lemma tags_paths:
  "i \<in> set (issuesOf (z_default (z_array (z_string mn mx)) (JArr []) p v)) \<Longrightarrow> \<exists>q. path i = p @ q"
  by (auto simp: z_default_def z_array_def
      split: option.splits json.splits dest: z_array_items_paths)

lemma tags_valid:
  "issuesOf (z_default (z_array (z_string None None)) (JArr []) p v) = [] \<longleftrightarrow>
     (case v of None \<Rightarrow> True | Some (JArr xs) \<Rightarrow> list_all isText xs | _ \<Rightarrow> False)"
  by (auto simp: z_default_def z_array_def z_array_items_valid
      split: option.splits json.splits)

lemma steps_not_empty: "z_optional (z_string mn mx) p v \<noteq> Inl []"
  by (auto simp: z_optional_def ap_not_empty z_string_not_empty split: option.splits)

lemma steps_paths: "i \<in> set (issuesOf (z_optional (z_string mn mx) p v)) \<Longrightarrow> path i = p"
  by (auto simp: z_optional_def issuesOf_ap split: option.splits dest: z_string_paths)

lemma steps_valid:
  "issuesOf (z_optional (z_string None None) p v) = [] \<longleftrightarrow>
     (case v of None \<Rightarrow> True | Some x \<Rightarrow> isText x)"
  by (auto simp: z_optional_def issuesOf_ap z_string_plain_valid isText_def
      split: option.splits json.splits)

text \<open>
  A field's result reports either nothing, when the field meets its constraint, or issues
  all of which are at that field.
\<close>

lemma field_report:
  assumes "r \<noteq> Inl []"
    and "\<And>i. i \<in> set (issuesOf r) \<Longrightarrow> \<exists>q. path i = Key k # q"
    and "issuesOf r = [] \<longleftrightarrow> ok"
  shows "fieldOf ` set (issuesOf r) = (if ok then {} else {k})"
proof (cases ok)
  case True
  with assms(3) show ?thesis by simp
next
  case False
  with assms(3) obtain i where i: "i \<in> set (issuesOf r)"
    by (cases "issuesOf r") auto
  have at: "fieldOf j = k" if "j \<in> set (issuesOf r)" for j
    using assms(2) [OF that] by (auto simp: fieldOf_def)
  from at have "fieldOf ` set (issuesOf r) \<subseteq> {k}"
    by blast
  moreover from i at have "k \<in> fieldOf ` set (issuesOf r)"
    by (metis imageI)
  ultimately have "fieldOf ` set (issuesOf r) = {k}"
    by blast
  with False show ?thesis by simp
qed

lemma text_report:
  "fieldOf ` set (issuesOf (field (z_string (Some (lo, m)) hi) values k))
     = (if textOfLength lo (map_option fst hi) (map_of values k) then {} else {k})"
  unfolding field_def
  by (rule field_report) (auto simp: z_string_not_empty z_string_valid dest: z_string_paths)

lemma priority_report:
  "fieldOf ` set (issuesOf (field (z_enum vs) values k))
     = (if map_of values k \<in> Some ` JStr ` fst ` set vs then {} else {k})"
  unfolding field_def
  by (rule field_report) (auto simp: z_enum_not_empty z_enum_valid dest: z_enum_paths)

lemma reproducible_report:
  "fieldOf ` set (issuesOf (field z_boolean values k))
     = (if (case map_of values k of Some (JBool b) \<Rightarrow> True | _ \<Rightarrow> False) then {} else {k})"
  unfolding field_def
  by (rule field_report) (auto simp: z_boolean_not_empty z_boolean_valid dest: z_boolean_paths)

lemma steps_report:
  "fieldOf ` set (issuesOf (field (z_optional (z_string None None)) values k))
     = (if (case map_of values k of None \<Rightarrow> True | Some x \<Rightarrow> isText x) then {} else {k})"
  unfolding field_def
  by (rule field_report) (auto simp: steps_not_empty steps_valid dest: steps_paths)

lemma tags_report:
  "fieldOf ` set (issuesOf (field (z_default (z_array (z_string None None)) (JArr [])) values k))
     = (if (case map_of values k of None \<Rightarrow> True | Some (JArr xs) \<Rightarrow> list_all isText xs
            | _ \<Rightarrow> False) then {} else {k})"
  unfolding field_def
  by (rule field_report) (auto simp: tags_not_empty tags_valid dest: tags_paths)

lemma bugFormSchema_not_empty: "bugFormSchema values \<noteq> Inl []"
  unfolding bugFormSchema_def field_def
  by (intro ap_not_empty z_string_not_empty z_enum_not_empty z_boolean_not_empty
      steps_not_empty tags_not_empty) simp

lemma set_filter_Cons:
  "set (filter (\<lambda>k. \<not> P k) (x # xs)) = (if P x then {} else {x}) \<union> set (filter (\<lambda>k. \<not> P k) xs)"
  by auto

lemma field_reports:
  "fieldOf ` set (issuesOf (field (z_string (Some (1, m1)) (Some (100, m2))) values ''title''))
     = (if fieldValid ''title'' (map_of values ''title'') then {} else {''title''})"
  "fieldOf ` set (issuesOf (field (z_string (Some (10, m3)) (Some (1000, m4))) values
        ''description''))
     = (if fieldValid ''description'' (map_of values ''description'') then {}
        else {''description''})"
  "fieldOf ` set (issuesOf (field (z_enum [(''low'', Low), (''medium'', Medium), (''high'', High),
        (''critical'', Critical)]) values ''priority''))
     = (if fieldValid ''priority'' (map_of values ''priority'') then {} else {''priority''})"
  "fieldOf ` set (issuesOf (field (z_string (Some (1, m5)) None) values ''assignee''))
     = (if fieldValid ''assignee'' (map_of values ''assignee'') then {} else {''assignee''})"
  "fieldOf ` set (issuesOf (field (z_string (Some (1, m6)) None) values ''reporter''))
     = (if fieldValid ''reporter'' (map_of values ''reporter'') then {} else {''reporter''})"
  "fieldOf ` set (issuesOf (field (z_string (Some (1, m7)) None) values ''environment''))
     = (if fieldValid ''environment'' (map_of values ''environment'') then {}
        else {''environment''})"
  "fieldOf ` set (issuesOf (field z_boolean values ''reproducible''))
     = (if fieldValid ''reproducible'' (map_of values ''reproducible'') then {}
        else {''reproducible''})"
  "fieldOf ` set (issuesOf (field (z_optional (z_string None None)) values ''stepsToReproduce''))
     = (if fieldValid ''stepsToReproduce'' (map_of values ''stepsToReproduce'') then {}
        else {''stepsToReproduce''})"
  "fieldOf ` set (issuesOf (field (z_default (z_array (z_string None None)) (JArr [])) values
        ''tags''))
     = (if fieldValid ''tags'' (map_of values ''tags'') then {} else {''tags''})"
  by (simp_all add: text_report priority_report reproducible_report steps_report tags_report
      fieldValid_def)

lemma bugFormSchema_fields:
  "fieldOf ` set (issuesOf (bugFormSchema values)) = set (violatedFields values)"
proof -
  have "fieldOf ` set (issuesOf (bugFormSchema values)) =
      (if fieldValid ''title'' (map_of values ''title'') then {} else {''title''}) \<union> (
      (if fieldValid ''description'' (map_of values ''description'') then {} else {''description''}) \<union> (
      (if fieldValid ''priority'' (map_of values ''priority'') then {} else {''priority''}) \<union> (
      (if fieldValid ''assignee'' (map_of values ''assignee'') then {} else {''assignee''}) \<union> (
      (if fieldValid ''reporter'' (map_of values ''reporter'') then {} else {''reporter''}) \<union> (
      (if fieldValid ''environment'' (map_of values ''environment'') then {} else {''environment''}) \<union> (
      (if fieldValid ''reproducible'' (map_of values ''reproducible'') then {} else {''reproducible''}) \<union> (
      (if fieldValid ''stepsToReproduce'' (map_of values ''stepsToReproduce'') then {} else {''stepsToReproduce''}) \<union> (
      (if fieldValid ''tags'' (map_of values ''tags'') then {} else {''tags''}) \<union> (
      {})))))))))"
    unfolding bugFormSchema_def issuesOf_ap set_append image_Un field_reports
      issuesOf_Inr list.set image_empty
    by (simp only: Un_assoc Un_empty_left Un_empty_right)
  also have "\<dots> = set (violatedFields values)"
    unfolding violatedFields_def formFields_def
    by (simp only: set_filter_Cons) simp
  finally show ?thesis .
qed


lemmas form_eval =
  bugFormSchema_def field_def z_string_def z_enum_def z_boolean_def z_optional_def z_default_def
  z_array_def mkBugFormData_def handleSubmit_def violatedFields_def formFields_def fieldValid_def
  textOfLength_def isText_def fieldOf_def valuesA_def valuesBad_def

text \<open>
  Claim C3, as stated, fails at the server: \<open>createBug\<close> checks nothing itself, and the
  schema it saves through accepts the body of the server's own test, a title alone,
  which has no description, priority, assignee, reporter or environment (nor the
  \<open>reproducible\<close> flag of the form). The bug is stored and the answer is 201.
\<close>

theorem C3_server_create_counterexample:
  "violatedFields testBody =
     [''description'', ''priority'', ''assignee'', ''reporter'', ''environment'', ''reproducible'']
   \<and> createBug (withId ''65a000000000000000000003'') requiresTitle [] testBody =
       ([[(''_id'', JStr ''65a000000000000000000003''), (''title'', JStr ''Test Bug'')]],
        Some \<lparr>statusCode = 201,
              body = JObj [(''_id'', JStr ''65a000000000000000000003''),
                           (''title'', JStr ''Test Bug'')]\<rparr>)"
  by (simp add: form_eval createBug_def Let_def testBody_def requiresTitle_def withId_def)

text \<open>
  Claim C3, amended: whenever the values submitted through the bug form violate a field
  constraint (the title not of 1 to 100 characters, the description not of 10 to 1000,
  the priority not one of low, medium, high and critical, an empty or missing assignee,
  reporter or environment, or a value of the wrong type in one of the other fields), the
  submission fails with the schema's issues and the create call is not made; the fields
  the issues are reported at are exactly the violated fields, all of them. With no field
  violated the parsed data is handed to the create call.
\<close>

theorem C3_form_validation:
  "(violatedFields values = [] \<longrightarrow>
      (\<exists>data. bugFormSchema values = Inr data
         \<and> handleSubmit onSubmit values = Inr (onSubmit data)))
   \<and> (violatedFields values \<noteq> [] \<longrightarrow>
      (\<exists>issues. bugFormSchema values = Inl issues
         \<and> handleSubmit onSubmit values = Inl issues
         \<and> fieldOf ` set issues = set (violatedFields values)))"
proof (intro conjI impI)
  assume "violatedFields values = []"
  with bugFormSchema_fields [of "values"] have "issuesOf (bugFormSchema values) = []"
    by simp
  with issuesOf_Nil_iff [OF bugFormSchema_not_empty]
  obtain data where "bugFormSchema values = Inr data"
    by blast
  then have "bugFormSchema values = Inr data
         \<and> handleSubmit onSubmit values = Inr (onSubmit data)"
    by (simp add: handleSubmit_def)
  then show "\<exists>data. bugFormSchema values = Inr data
         \<and> handleSubmit onSubmit values = Inr (onSubmit data)" ..
next
  assume v: "violatedFields values \<noteq> []"
  with bugFormSchema_fields [of "values"] have "issuesOf (bugFormSchema values) \<noteq> []"
    by (metis image_empty list.set(1) set_empty)
  then obtain issues where i: "bugFormSchema values = Inl issues"
    by (cases "bugFormSchema values") simp_all
  with bugFormSchema_fields [of "values"]
  have "bugFormSchema values = Inl issues
         \<and> handleSubmit onSubmit values = Inl issues
         \<and> fieldOf ` set issues = set (violatedFields values)"
    by (simp add: handleSubmit_def)
  then show "\<exists>issues. bugFormSchema values = Inl issues
         \<and> handleSubmit onSubmit values = Inl issues
         \<and> fieldOf ` set issues = set (violatedFields values)" ..
qed

theorem C3_form_validation_witness:
  "violatedFields valuesA = []
   \<and> handleSubmit (\<lambda>data. title data) valuesA = Inr ''Crash on save''
   \<and> violatedFields valuesBad = [''title'', ''description'', ''priority'', ''reporter'']
   \<and> (\<exists>issues. handleSubmit (\<lambda>data. title data) valuesBad = Inl issues
         \<and> fieldOf ` set issues = {''title'', ''description'', ''priority'', ''reporter''})"
proof -
  have a: "violatedFields valuesA = []"
    by (simp add: form_eval)
  have b: "violatedFields valuesBad = [''title'', ''description'', ''priority'', ''reporter'']"
    by (simp add: form_eval)
  have 1: "handleSubmit (\<lambda>data. title data) valuesA = Inr ''Crash on save''"
    by (simp add: form_eval)
  from b have ne: "violatedFields valuesBad \<noteq> []"
    by simp
  have "violatedFields valuesBad \<noteq> [] \<longrightarrow>
      (\<exists>issues. bugFormSchema valuesBad = Inl issues
         \<and> handleSubmit (\<lambda>data. title data) valuesBad = Inl issues
         \<and> fieldOf ` set issues = set (violatedFields valuesBad))"
    using C3_form_validation [of valuesBad "\<lambda>data. title data"] by (rule conjunct2)
  from this ne have "\<exists>issues. bugFormSchema valuesBad = Inl issues
         \<and> handleSubmit (\<lambda>data. title data) valuesBad = Inl issues
         \<and> fieldOf ` set issues = set (violatedFields valuesBad)"
    by (rule mp)
  then obtain issues where i: "bugFormSchema valuesBad = Inl issues
         \<and> handleSubmit (\<lambda>data. title data) valuesBad = Inl issues
         \<and> fieldOf ` set issues = set (violatedFields valuesBad)" ..
  from i have h: "handleSubmit (\<lambda>data. title data) valuesBad = Inl issues"
    by (rule conjunct1 [OF conjunct2])
  from i have "fieldOf ` set issues = set (violatedFields valuesBad)"
    by (rule conjunct2 [OF conjunct2])
  then have "fieldOf ` set issues = {''title'', ''description'', ''priority'', ''reporter''}"
    unfolding b by simp
  with h have "handleSubmit (\<lambda>data. title data) valuesBad = Inl issues
         \<and> fieldOf ` set issues = {''title'', ''description'', ''priority'', ''reporter''}"
    by (rule conjI)
  then have 2: "\<exists>issues. handleSubmit (\<lambda>data. title data) valuesBad = Inl issues
         \<and> fieldOf ` set issues = {''title'', ''description'', ''priority'', ''reporter''}"
    by (rule exI [of _ issues])
  from a 1 b 2 show ?thesis by (intro conjI)
qed



section \<open>Properties of the statistics\<close>

lemma roundTiesToEven_ge: "\<lfloor>y\<rfloor> \<le> roundTiesToEven y"
  by (simp add: roundTiesToEven_def Let_def)

lemma roundTiesToEven_le:
  assumes "y \<le> of_int m"
  shows "roundTiesToEven y \<le> m"
proof (cases "\<lfloor>y\<rfloor> = m")
  case True
  then have "of_int m \<le> y" by (metis of_int_floor_le)
  with assms have "y = of_int m" by simp
  then show ?thesis by (simp add: roundTiesToEven_def)
next
  case False
  from assms have "\<lfloor>y\<rfloor> \<le> m" by (simp add: floor_le_iff)
  with False have "\<lfloor>y\<rfloor> + 1 \<le> m" by simp
  moreover have "roundTiesToEven y \<le> \<lfloor>y\<rfloor> + 1"
    by (simp add: roundTiesToEven_def Let_def)
  ultimately show ?thesis by simp
qed

lemma exponent_lower:
  assumes "0 < x"
  shows "2 powi exponent x \<le> x"
proof (cases "1 \<le> x")
  case True
  let ?n = "nat \<lfloor>x\<rfloor>"
  from True have n: "0 < ?n" by simp
  from floorlog_bounds [OF n, of 2] have b: "2 ^ (floorlog 2 ?n - 1) \<le> ?n" by simp
  from n have "0 < floorlog 2 ?n" by (simp add: floorlog_def)
  then have e: "exponent x = int (floorlog 2 ?n - 1)"
    using True by (simp add: exponent_def)
  have "(2::rat) powi exponent x = 2 ^ (floorlog 2 ?n - 1)"
    unfolding e by (rule power_int_of_nat)
  also have "\<dots> = of_nat (2 ^ (floorlog 2 ?n - 1))" by simp
  also from b have "\<dots> \<le> of_nat ?n" by (rule of_nat_mono)
  also have "\<dots> \<le> x" using True by (simp add: of_nat_nat)
  finally show ?thesis .
next
  case False
  let ?y = "1 / x"
  let ?m = "nat (\<lceil>?y\<rceil> - 1)"
  let ?k = "floorlog 2 ?m"
  from False assms have y: "1 < ?y" by simp
  then have c: "2 \<le> \<lceil>?y\<rceil>" by linarith
  then have m: "0 < ?m" by simp
  from floorlog_bounds [OF m, of 2] have "?m < 2 ^ ?k" by simp
  then have "Suc ?m \<le> 2 ^ ?k" by (rule Suc_leI)
  then have "(of_nat (Suc ?m) :: rat) \<le> of_nat (2 ^ ?k)" by (rule of_nat_mono)
  moreover from y have "?y \<le> of_nat (Suc ?m)" by linarith
  ultimately have yk: "?y \<le> 2 ^ ?k" by simp
  have e: "exponent x = - int ?k"
    using False by (simp add: exponent_def)
  have "(2::rat) powi exponent x = 1 / 2 ^ ?k"
    unfolding e by (simp add: power_int_minus_divide)
  also from yk assms have "\<dots> \<le> x"
    by (simp add: field_simps)
  finally show ?thesis .
qed

lemma fl_nonneg:
  assumes "0 \<le> x"
  shows "0 \<le> fl x"
proof (cases "x = 0")
  case True
  then show ?thesis by (simp add: fl_def)
next
  case False
  with assms have x: "0 < x" by simp
  let ?u = "(2::rat) powi (exponent x - 52)"
  have u: "0 < ?u" by simp
  with x have "0 \<le> x / ?u" by simp
  then have "0 \<le> \<lfloor>x / ?u\<rfloor>" by simp
  from this roundTiesToEven_ge have "0 \<le> roundTiesToEven (x / ?u)" by (rule order_trans)
  with u have "0 \<le> of_int (roundTiesToEven (x / ?u)) * ?u" by simp
  with x show ?thesis by (simp add: fl_def Let_def)
qed

lemma fl_le:
  assumes "0 < x" and "x \<le> of_int c" and "c \<le> 2 ^ 52"
  shows "fl x \<le> of_int c"
proof -
  let ?e = "exponent x"
  let ?u = "(2::rat) powi (?e - 52)"
  let ?N = "(2::int) ^ nat (52 - ?e)"
  from assms(3) have "(of_int c :: rat) \<le> of_int (2 ^ 52)" by (rule of_int_le_iff [THEN iffD2])
  with exponent_lower [OF assms(1)] assms(2) have "(2::rat) powi ?e \<le> 2 powi 52"
    by simp
  then have e: "?e \<le> 52"
    by (rule power_int_le_imp_le_exp [rotated]) simp_all
  have "?u = 1 / 2 powi (52 - ?e)"
    using power_int_minus_divide [of "2::rat" "52 - ?e"] by simp
  also from e have "\<dots> = 1 / of_int ?N"
    by (simp add: power_int_nonneg_exp)
  finally have u: "?u = 1 / of_int ?N" .
  have N: "0 < ?N" by simp
  from assms(2) N have "x * of_int ?N \<le> of_int c * of_int ?N"
    by (simp add: mult_right_mono)
  then have "x / ?u \<le> of_int (c * ?N)"
    by (simp add: u)
  then have "roundTiesToEven (x / ?u) \<le> c * ?N"
    by (rule roundTiesToEven_le)
  then have "(of_int (roundTiesToEven (x / ?u)) :: rat) \<le> of_int (c * ?N)"
    by (rule of_int_le_iff [THEN iffD2])
  moreover have "0 \<le> ?u" by simp
  ultimately have "of_int (roundTiesToEven (x / ?u)) * ?u \<le> of_int (c * ?N) * ?u"
    by (rule mult_right_mono)
  also have "of_int (c * ?N) * ?u = of_int c"
    using N by (simp add: u)
  finally show ?thesis
    using assms(1) by (simp add: fl_def Let_def)
qed

lemma fl_le_nonneg:
  assumes "0 \<le> x" and "x \<le> of_int c" and "c \<le> 2 ^ 52"
  shows "fl x \<le> of_int c"
proof (cases "x = 0")
  case True
  with assms(2) show ?thesis by (simp add: fl_def)
next
  case False
  with assms(1) have "0 < x" by simp
  from this assms(2,3) show ?thesis by (rule fl_le)
qed

lemma percentage_bounds:
  assumes "r \<le> t" and "0 < t"
  shows "0 \<le> Math_round (js_times (js_divide (of_nat r) (of_nat t)) 100)"
    and "Math_round (js_times (js_divide (of_nat r) (of_nat t)) 100) \<le> 100"
proof -
  let ?q = "js_divide (of_nat r) (of_nat t)"
  let ?p = "js_times ?q 100"
  from assms have x: "(0::rat) \<le> of_nat r / of_nat t" "(of_nat r / of_nat t :: rat) \<le> of_int 1"
    by simp_all
  from x(1) have q0: "0 \<le> ?q"
    unfolding js_divide_def by (rule fl_nonneg)
  from x have "?q \<le> of_int 1"
    unfolding js_divide_def by (rule fl_le_nonneg) simp
  then have q1: "?q * 100 \<le> of_int 100" by simp
  from q0 have q2: "0 \<le> ?q * 100" by simp
  from q2 have p0: "0 \<le> ?p"
    unfolding js_times_def by (rule fl_nonneg)
  from q2 q1 have "?p \<le> of_int 100"
    unfolding js_times_def by (rule fl_le_nonneg) simp
  then have p1: "?p \<le> 100" by simp
  from p0 show "0 \<le> Math_round ?p"
    by (simp add: Math_round_def)
  from p1 have "?p + 1 / 2 < of_int 101" by simp
  then have "\<lfloor>?p + 1 / 2\<rfloor> < 101" by (rule floor_less_iff [THEN iffD2])
  then show "Math_round ?p \<le> 100"
    by (simp add: Math_round_def)
qed

lemma status_counts:
  "length (filter (\<lambda>bug. status bug = Open) bugs)
   + length (filter (\<lambda>bug. status bug = InProgress) bugs)
   + length (filter (\<lambda>bug. status bug = Resolved) bugs)
   + length (filter (\<lambda>bug. status bug = Closed) bugs) = length bugs"
proof (induction bugs)
  case Nil
  then show ?case by simp
next
  case (Cons b bugs)
  then show ?case by (cases "status b") simp_all
qed

lemma priority_counts:
  "length (filter (\<lambda>bug. priority bug = Low) bugs)
   + length (filter (\<lambda>bug. priority bug = Medium) bugs)
   + length (filter (\<lambda>bug. priority bug = High) bugs)
   + length (filter (\<lambda>bug. priority bug = Critical) bugs) = length bugs"
proof (induction bugs)
  case Nil
  then show ?case by simp
next
  case (Cons b bugs)
  then show ?case by (cases "priority b") simp_all
qed


text \<open>
  The rounding is what it is meant to be: the exponent brackets the number between two
  powers of two, and \<open>fl\<close> gives a multiple of the unit in the last place that is
  within half a unit of the number.
\<close>

lemma exponent_upper:
  assumes "0 < x"
  shows "x < 2 powi (exponent x + 1)"
proof (cases "1 \<le> x")
  case True
  let ?n = "nat \<lfloor>x\<rfloor>"
  from True have n: "0 < ?n" by simp
  from floorlog_bounds [OF n, of 2] have "?n < 2 ^ floorlog 2 ?n" by simp
  then have "Suc ?n \<le> 2 ^ floorlog 2 ?n" by (rule Suc_leI)
  then have "(of_nat (Suc ?n) :: rat) \<le> of_nat (2 ^ floorlog 2 ?n)" by (rule of_nat_mono)
  moreover from True have "x < of_nat (Suc ?n)" by linarith
  ultimately have "x < 2 ^ floorlog 2 ?n" by simp
  moreover have "exponent x + 1 = int (floorlog 2 ?n)"
    using True by (simp add: exponent_def)
  ultimately show ?thesis by simp
next
  case False
  let ?y = "1 / x"
  let ?m = "nat (\<lceil>?y\<rceil> - 1)"
  let ?k = "floorlog 2 ?m"
  from False assms have y: "1 < ?y" by simp
  then have c: "2 \<le> \<lceil>?y\<rceil>" by linarith
  then have m: "0 < ?m" by simp
  then have k: "0 < ?k" by (simp add: floorlog_def)
  from floorlog_bounds [OF m, of 2] have "2 ^ (?k - 1) \<le> ?m" by simp
  then have "(of_nat (2 ^ (?k - 1)) :: rat) \<le> of_nat ?m" by (rule of_nat_mono)
  then have "(2::rat) ^ (?k - 1) \<le> of_nat ?m" by simp
  moreover from y have "of_nat ?m < ?y" by linarith
  ultimately have yk: "2 ^ (?k - 1) < ?y" by (rule le_less_trans)
  have e: "exponent x + 1 = - int (?k - 1)"
    using False k by (simp add: exponent_def)
  from yk assms have "x < 1 / 2 ^ (?k - 1)"
    by (simp add: field_simps)
  also have "\<dots> = (2::rat) powi (exponent x + 1)"
    unfolding e by (simp add: power_int_minus_divide)
  finally show ?thesis .
qed

lemma roundTiesToEven_near: "\<bar>of_int (roundTiesToEven y) - y\<bar> \<le> 1 / 2"
proof -
  define d where "d = y - of_int \<lfloor>y\<rfloor>"
  have d: "0 \<le> d" "d < 1"
    unfolding d_def by linarith+
  have "of_int (roundTiesToEven y) - y =
      (if d < 1 / 2 then - d else if 1 / 2 < d then 1 - d else if even \<lfloor>y\<rfloor> then - d else 1 - d)"
    by (simp add: roundTiesToEven_def Let_def d_def)
  with d show ?thesis
    by (simp add: abs_if split: if_splits)
qed

lemma fl_nearest:
  assumes "0 < x"
  shows "\<bar>fl x - x\<bar> \<le> 2 powi (exponent x - 52) / 2"
proof -
  let ?u = "(2::rat) powi (exponent x - 52)"
  have u: "0 < ?u" by simp
  from assms have "fl x - x = (of_int (roundTiesToEven (x / ?u)) - x / ?u) * ?u"
    by (simp add: fl_def Let_def algebra_simps)
  then have "\<bar>fl x - x\<bar> = \<bar>of_int (roundTiesToEven (x / ?u)) - x / ?u\<bar> * ?u"
    using u by (simp add: abs_mult)
  also from u have "\<dots> \<le> 1 / 2 * ?u"
    by (intro mult_right_mono roundTiesToEven_near) simp
  finally show ?thesis by simp
qed


text \<open>
  The percentage is rounded from binary64 values, not from the exact quotient: with 23 of
  40 bugs resolved the product is just below 57.5 and the statistics show 57, and a tie
  such as 12.5 (1 of 8) goes up, to 13.
\<close>

lemma binary64_percentages:
  "Math_round (js_times (js_divide 23 40) 100) = 57
   \<and> Math_round (js_times (js_divide 1 8) 100) = 13
   \<and> Math_round (js_times (js_divide 29 200) 100) = 14"
  by code_simp

text \<open>
  Each rounding is off by at most the fraction \<open>2^-53\<close> of the number, so the product that
  \<^verbatim>\<open>Math.round\<close> is given is within \<open>200 / 2^53\<close> of the exact percentage.
\<close>

lemma fl_relative:
  assumes "0 \<le> z"
  shows "\<bar>fl z - z\<bar> \<le> z / 2 ^ 53"
proof (cases "z = 0")
  case True
  then show ?thesis by (simp add: fl_def)
next
  case False
  with assms have z: "0 < z" by simp
  have "(2::rat) powi (exponent z - 52) = 2 powi exponent z / 2 powi 52"
    by (rule power_int_diff) simp
  then have "(2::rat) powi (exponent z - 52) / 2 = 2 powi exponent z / 2 ^ 53"
    by simp
  also from exponent_lower [OF z] have "\<dots> \<le> z / 2 ^ 53"
    by (simp add: divide_right_mono)
  finally have "(2::rat) powi (exponent z - 52) / 2 \<le> z / 2 ^ 53" .
  with fl_nearest [OF z] show ?thesis by (rule order_trans)
qed

lemma percentage_error:
  assumes "r \<le> t" and "0 < t"
  shows "\<bar>js_times (js_divide (of_nat r) (of_nat t)) 100 - of_nat r / of_nat t * 100\<bar>
           \<le> 200 / 2 ^ 53"
proof -
  define x :: rat where "x = of_nat r / of_nat t"
  define q where "q = fl x"
  define p where "p = fl (q * 100)"
  from assms have x: "0 \<le> x" "x \<le> of_int 1"
    by (simp_all add: x_def)
  from x(1) have q0: "0 \<le> q"
    unfolding q_def by (rule fl_nonneg)
  from x have "q \<le> of_int 1"
    unfolding q_def by (rule fl_le_nonneg) simp
  then have q1: "q \<le> 1" by simp
  from fl_relative [OF x(1)] x(2) have eq: "\<bar>q - x\<bar> \<le> 1 / 2 ^ 53"
    unfolding q_def by simp
  from q0 have "0 \<le> q * 100" by simp
  from fl_relative [OF this] q1 have ep: "\<bar>p - q * 100\<bar> \<le> 100 / 2 ^ 53"
    unfolding p_def by simp
  have "\<bar>p - x * 100\<bar> \<le> \<bar>p - q * 100\<bar> + \<bar>q - x\<bar> * 100"
    by (simp add: abs_if split: if_splits)
  also from ep eq have "\<dots> \<le> 100 / 2 ^ 53 + 1 / 2 ^ 53 * 100"
    by (intro add_mono mult_right_mono) simp_all
  finally have "\<bar>p - x * 100\<bar> \<le> 200 / 2 ^ 53" by simp
  then show ?thesis
    by (simp add: p_def q_def x_def js_times_def js_divide_def)
qed

lemma floor_near:
  fixes p y g :: rat
  assumes "\<bar>p - y\<bar> < g" and "of_int n + g \<le> y" and "y + g \<le> of_int n + 1"
  shows "\<lfloor>p\<rfloor> = n"
proof (rule floor_unique)
  from assms show "of_int n \<le> p" by (simp add: abs_if split: if_splits)
  from assms show "p < of_int n + 1" by (simp add: abs_if split: if_splits)
qed

lemma floor_at_integer:
  fixes p :: rat
  assumes "\<bar>p - of_int m\<bar> < 1"
  shows "\<lfloor>p\<rfloor> = m \<or> \<lfloor>p\<rfloor> = m - 1"
proof (cases "of_int m \<le> p")
  case True
  with assms have "\<lfloor>p\<rfloor> = m"
    by (intro floor_unique) (simp_all add: abs_if split: if_splits)
  then show ?thesis by simp
next
  case False
  with assms have "\<lfloor>p\<rfloor> = m - 1"
    by (intro floor_unique) (simp_all add: abs_if split: if_splits)
  then show ?thesis by simp
qed

lemma percentage_exact:
  fixes r t :: nat
  defines "x \<equiv> (of_nat r / of_nat t * 100 :: rat)"
  assumes "r \<le> t" and "0 < t" and "t < 2 ^ 32"
  shows "frac x \<noteq> 1 / 2 \<longrightarrow>
           Math_round (js_times (js_divide (of_nat r) (of_nat t)) 100) = Math_round x"
    and "frac x = 1 / 2 \<longrightarrow>
           Math_round (js_times (js_divide (of_nat r) (of_nat t)) 100) = Math_round x
           \<or> Math_round (js_times (js_divide (of_nat r) (of_nat t)) 100) = Math_round x - 1"
proof -
  define p where "p = js_times (js_divide (of_nat r) (of_nat t)) 100"
  define y where "y = x + 1 / 2"
  define g :: rat where "g = 1 / (2 * of_nat t)"
  define n where "n = \<lfloor>y\<rfloor>"
  from assms(3) have t: "(0::rat) < of_nat t" by simp
  from assms(4) have "(of_nat t :: rat) < of_nat (2 ^ 32)"
    by (rule of_nat_less_iff [THEN iffD2])
  then have "(2 * of_nat t :: rat) < 2 ^ 33" by simp
  with t have "1 / (2 :: rat) ^ 33 < g"
    unfolding g_def by (intro divide_strict_left_mono) simp_all
  moreover have "(200 :: rat) / 2 ^ 53 < 1 / 2 ^ 33" by simp
  ultimately have small: "200 / 2 ^ 53 < g" by simp
  from percentage_error [OF assms(2,3)] have "\<bar>p - x\<bar> \<le> 200 / 2 ^ 53"
    by (simp add: p_def x_def)
  with small have err: "\<bar>(p + 1 / 2) - y\<bar> < g"
    by (simp add: y_def)
  have g1: "g \<le> 1 / 2"
  proof -
    from assms(3) have "(1::rat) \<le> of_nat t" by simp
    then show ?thesis unfolding g_def by (simp add: field_simps)
  qed
  have scale: "y * (2 * of_nat t) = of_nat (200 * r + t)"
    using t by (simp add: y_def x_def field_simps)
  have nontie: "Math_round p = Math_round x" if nt: "frac x \<noteq> 1 / 2"
  proof -
    have yn: "y \<noteq> of_int n"
    proof
      assume "y = of_int n"
      then have x: "x = of_int (n - 1) + 1 / 2" by (simp add: y_def)
      have "\<lfloor>x\<rfloor> = n - 1"
        by (rule floor_unique) (simp_all add: x)
      then have "frac x = 1 / 2" by (simp add: frac_def x)
      with nt show False ..
    qed
    have "of_int n \<le> y" unfolding n_def by (rule of_int_floor_le)
    with yn have pos: "0 < y - of_int n" by simp
    have up: "0 < of_int (n + 1) - y" unfolding n_def by linarith
    define k where "k = int (200 * r + t) - n * (2 * int t)"
    define k' where "k' = (n + 1) * (2 * int t) - int (200 * r + t)"
    have "(y - of_int n) * (2 * of_nat t) = y * (2 * of_nat t) - of_int n * (2 * of_nat t)"
      by (rule left_diff_distrib)
    also have "\<dots> = of_nat (200 * r + t) - of_int n * (2 * of_nat t)"
      by (simp only: scale)
    also have "\<dots> = of_int k"
      by (simp add: k_def)
    finally have k: "of_int k = (y - of_int n) * (2 * of_nat t)" ..
    have "(of_int (n + 1) - y) * (2 * of_nat t)
        = of_int (n + 1) * (2 * of_nat t) - y * (2 * of_nat t)"
      by (rule left_diff_distrib)
    also have "\<dots> = of_int (n + 1) * (2 * of_nat t) - of_nat (200 * r + t)"
      by (simp only: scale)
    also have "\<dots> = of_int k'"
      by (simp add: k'_def)
    finally have k': "of_int k' = (of_int (n + 1) - y) * (2 * of_nat t)" ..
    from pos t have "(0::rat) < of_int k" unfolding k by simp
    then have "1 \<le> k" by simp
    then have "(1::rat) \<le> of_int k" by simp
    with t have lo: "of_int n + g \<le> y"
      unfolding k g_def by (simp add: field_simps)
    from up t have "(0::rat) < of_int k'" unfolding k' by simp
    then have "1 \<le> k'" by simp
    then have "(1::rat) \<le> of_int k'" by simp
    with t have hi: "y + g \<le> of_int n + 1"
      unfolding k' g_def by (simp add: field_simps)
    from err lo hi have "\<lfloor>p + 1 / 2\<rfloor> = n" by (rule floor_near)
    then show ?thesis
      by (simp add: Math_round_def n_def y_def)
  qed
  have tie: "Math_round p = Math_round x \<or> Math_round p = Math_round x - 1"
    if "frac x = 1 / 2"
  proof -
    from that have "y = of_int (\<lfloor>x\<rfloor> + 1)"
      by (simp add: frac_def y_def)
    moreover from err g1 have "\<bar>(p + 1 / 2) - y\<bar> < 1" by simp
    ultimately have "\<bar>(p + 1 / 2) - of_int (\<lfloor>x\<rfloor> + 1)\<bar> < 1" by simp
    then have "\<lfloor>p + 1 / 2\<rfloor> = \<lfloor>x\<rfloor> + 1 \<or> \<lfloor>p + 1 / 2\<rfloor> = \<lfloor>x\<rfloor> + 1 - 1"
      by (rule floor_at_integer)
    moreover from \<open>y = of_int (\<lfloor>x\<rfloor> + 1)\<close> have "\<lfloor>y\<rfloor> = \<lfloor>x\<rfloor> + 1"
      by simp
    ultimately show ?thesis
      by (simp add: Math_round_def y_def)
  qed
  from nontie show "frac x \<noteq> 1 / 2 \<longrightarrow>
           Math_round (js_times (js_divide (of_nat r) (of_nat t)) 100) = Math_round x"
    unfolding p_def by (rule impI)
  from tie show "frac x = 1 / 2 \<longrightarrow>
           Math_round (js_times (js_divide (of_nat r) (of_nat t)) 100) = Math_round x
           \<or> Math_round (js_times (js_divide (of_nat r) (of_nat t)) 100) = Math_round x - 1"
    unfolding p_def by (rule impI)
qed

lemma count_filter:
  "length (filter (\<lambda>b. f b = v) xs) = count_list (map f xs) v"
  by (induction xs) simp_all

text \<open>
  Claim C4, as stated, fails in the percentage: it is rounded from binary64 values, not
  from the exact quotient. With 23 of 40 bugs resolved the exact percentage is 57.5,
  which rounds to 58; the binary64 product is just below 57.5 and the statistics show 57.
\<close>

theorem C4_halfway_counterexample:
  "resolved (computeStats (replicate 23 bugB @ replicate 17 bugA)) = 23
   \<and> total_count (computeStats (replicate 23 bugB @ replicate 17 bugA)) = 40
   \<and> resolvedPercentage (computeStats (replicate 23 bugB @ replicate 17 bugA)) = 57
   \<and> specResolvedPercentage 23 40 = 58"
  by code_simp

text \<open>
  Claim C4, amended: for every collection of bugs the counts of \<open>computeStats\<close> are
  natural numbers: the total is the number of bugs, each status count is the number of
  bugs of that status and each priority count the number of bugs of that priority; the
  four status counts add up to the total and so do the four priority counts.
  \<open>resolvedPercentage\<close> is \<^verbatim>\<open>Math.round((resolved / total) * 100)\<close> in the arithmetic of
  JavaScript numbers when the total is positive and 0 when it is 0, and it always lies
  between 0 and 100. For a collection of fewer than \<open>2^32\<close> bugs (the bound on the length
  of an array) it equals \<open>round(resolved / total * 100)\<close> unless the exact percentage lies
  halfway between two integers, and then it is that number or one less.
\<close>

theorem C4_counts_and_percentage:
  "total_count (computeStats bugs) = length bugs
   \<and> open_count (computeStats bugs) = count_list (map status bugs) Open
   \<and> inProgress (computeStats bugs) = count_list (map status bugs) InProgress
   \<and> resolved (computeStats bugs) = count_list (map status bugs) Resolved
   \<and> closed_count (computeStats bugs) = count_list (map status bugs) Closed
   \<and> low (computeStats bugs) = count_list (map priority bugs) Low
   \<and> medium (computeStats bugs) = count_list (map priority bugs) Medium
   \<and> high (computeStats bugs) = count_list (map priority bugs) High
   \<and> critical (computeStats bugs) = count_list (map priority bugs) Critical
   \<and> open_count (computeStats bugs) + inProgress (computeStats bugs)
       + resolved (computeStats bugs) + closed_count (computeStats bugs)
     = total_count (computeStats bugs)
   \<and> low (computeStats bugs) + medium (computeStats bugs)
       + high (computeStats bugs) + critical (computeStats bugs)
     = total_count (computeStats bugs)
   \<and> resolvedPercentage (computeStats bugs) =
       (if total_count (computeStats bugs) > 0
        then Math_round (js_times (js_divide (of_nat (resolved (computeStats bugs)))
                                             (of_nat (total_count (computeStats bugs)))) 100)
        else 0)
   \<and> (total_count (computeStats bugs) = 0 \<longrightarrow> resolvedPercentage (computeStats bugs) = 0)
   \<and> 0 \<le> resolvedPercentage (computeStats bugs)
   \<and> resolvedPercentage (computeStats bugs) \<le> 100
   \<and> (length bugs < 2 ^ 32 \<longrightarrow>
        (frac (of_nat (resolved (computeStats bugs))
                 / of_nat (total_count (computeStats bugs)) * 100 :: rat) \<noteq> 1 / 2 \<longrightarrow>
           resolvedPercentage (computeStats bugs) =
             specResolvedPercentage (resolved (computeStats bugs))
               (total_count (computeStats bugs)))
        \<and> (frac (of_nat (resolved (computeStats bugs))
                 / of_nat (total_count (computeStats bugs)) * 100 :: rat) = 1 / 2 \<longrightarrow>
             resolvedPercentage (computeStats bugs) =
               specResolvedPercentage (resolved (computeStats bugs))
                 (total_count (computeStats bugs))
             \<or> resolvedPercentage (computeStats bugs) =
               specResolvedPercentage (resolved (computeStats bugs))
                 (total_count (computeStats bugs)) - 1))"
proof -
  let ?r = "length (filter (\<lambda>bug. status bug = Resolved) bugs)"
  have t: "total_count (computeStats bugs) = length bugs"
    by (simp add: computeStats_def Let_def)
  have r: "resolved (computeStats bugs) = ?r"
    by (simp add: computeStats_def Let_def)
  have c1: "open_count (computeStats bugs) = count_list (map status bugs) Open"
    by (simp add: computeStats_def Let_def count_filter)
  have c2: "inProgress (computeStats bugs) = count_list (map status bugs) InProgress"
    by (simp add: computeStats_def Let_def count_filter)
  have c3: "resolved (computeStats bugs) = count_list (map status bugs) Resolved"
    by (simp add: computeStats_def Let_def count_filter)
  have c4: "closed_count (computeStats bugs) = count_list (map status bugs) Closed"
    by (simp add: computeStats_def Let_def count_filter)
  have c5: "low (computeStats bugs) = count_list (map priority bugs) Low"
    by (simp add: computeStats_def Let_def count_filter)
  have c6: "medium (computeStats bugs) = count_list (map priority bugs) Medium"
    by (simp add: computeStats_def Let_def count_filter)
  have c7: "high (computeStats bugs) = count_list (map priority bugs) High"
    by (simp add: computeStats_def Let_def count_filter)
  have c8: "critical (computeStats bugs) = count_list (map priority bugs) Critical"
    by (simp add: computeStats_def Let_def count_filter)
  have s: "open_count (computeStats bugs) + inProgress (computeStats bugs)
       + resolved (computeStats bugs) + closed_count (computeStats bugs)
     = total_count (computeStats bugs)"
    using status_counts [of bugs] by (simp add: computeStats_def Let_def)
  have p: "low (computeStats bugs) + medium (computeStats bugs)
       + high (computeStats bugs) + critical (computeStats bugs)
     = total_count (computeStats bugs)"
    using priority_counts [of bugs] by (simp add: computeStats_def Let_def)
  have f: "resolvedPercentage (computeStats bugs) =
       (if total_count (computeStats bugs) > 0
        then Math_round (js_times (js_divide (of_nat (resolved (computeStats bugs)))
                                             (of_nat (total_count (computeStats bugs)))) 100)
        else 0)"
    by (simp add: computeStats_def Let_def)
  have z: "total_count (computeStats bugs) = 0 \<longrightarrow> resolvedPercentage (computeStats bugs) = 0"
    by (simp add: f)
  have le: "?r \<le> length bugs"
    by (rule length_filter_le)
  have b: "0 \<le> resolvedPercentage (computeStats bugs)
      \<and> resolvedPercentage (computeStats bugs) \<le> 100"
  proof (cases "0 < length bugs")
    case True
    with percentage_bounds [OF le True] show ?thesis
      unfolding f t r by simp
  next
    case False
    then show ?thesis
      unfolding f t by simp
  qed
  from b have b0: "0 \<le> resolvedPercentage (computeStats bugs)" ..
  from b have b1: "resolvedPercentage (computeStats bugs) \<le> 100" ..
  have e: "(frac (of_nat (resolved (computeStats bugs))
                 / of_nat (total_count (computeStats bugs)) * 100 :: rat) \<noteq> 1 / 2 \<longrightarrow>
           resolvedPercentage (computeStats bugs) =
             specResolvedPercentage (resolved (computeStats bugs))
               (total_count (computeStats bugs)))
        \<and> (frac (of_nat (resolved (computeStats bugs))
                 / of_nat (total_count (computeStats bugs)) * 100 :: rat) = 1 / 2 \<longrightarrow>
             resolvedPercentage (computeStats bugs) =
               specResolvedPercentage (resolved (computeStats bugs))
                 (total_count (computeStats bugs))
             \<or> resolvedPercentage (computeStats bugs) =
               specResolvedPercentage (resolved (computeStats bugs))
                 (total_count (computeStats bugs)) - 1)"
    if small: "length bugs < 2 ^ 32"
  proof (cases "0 < length bugs")
    case True
    from percentage_exact [OF le True small] True show ?thesis
      unfolding f t r specResolvedPercentage_def by simp
  next
    case False
    then show ?thesis
      unfolding f t r specResolvedPercentage_def by simp
  qed
  then have e': "length bugs < 2 ^ 32 \<longrightarrow>
        (frac (of_nat (resolved (computeStats bugs))
                 / of_nat (total_count (computeStats bugs)) * 100 :: rat) \<noteq> 1 / 2 \<longrightarrow>
           resolvedPercentage (computeStats bugs) =
             specResolvedPercentage (resolved (computeStats bugs))
               (total_count (computeStats bugs)))
        \<and> (frac (of_nat (resolved (computeStats bugs))
                 / of_nat (total_count (computeStats bugs)) * 100 :: rat) = 1 / 2 \<longrightarrow>
             resolvedPercentage (computeStats bugs) =
               specResolvedPercentage (resolved (computeStats bugs))
                 (total_count (computeStats bugs))
             \<or> resolvedPercentage (computeStats bugs) =
               specResolvedPercentage (resolved (computeStats bugs))
                 (total_count (computeStats bugs)) - 1)"
    by (rule impI)
  from t c1 c2 c3 c4 c5 c6 c7 c8 s p f z b0 b1 e' show ?thesis
    by (intro conjI)
qed

theorem C4_counts_and_percentage_witness:
  "computeStats [bugA, bugB, bugC] =
     \<lparr>total_count = 3, open_count = 2, inProgress = 0, resolved = 1, closed_count = 0,
      critical = 1, high = 1, medium = 0, low = 1, resolvedPercentage = 33\<rparr>
   \<and> length [bugA, bugB, bugC] < 2 ^ 32
   \<and> frac (of_nat (resolved (computeStats [bugA, bugB, bugC]))
             / of_nat (total_count (computeStats [bugA, bugB, bugC])) * 100 :: rat) \<noteq> 1 / 2
   \<and> resolvedPercentage (computeStats [bugA, bugB, bugC])
       = specResolvedPercentage (resolved (computeStats [bugA, bugB, bugC]))
           (total_count (computeStats [bugA, bugB, bugC]))
   \<and> specResolvedPercentage 1 3 = 33
   \<and> total_count (computeStats []) = 0
   \<and> resolvedPercentage (computeStats []) = 0
   \<and> length (replicate 23 bugB @ replicate 17 bugA) < 2 ^ 32
   \<and> frac (of_nat (resolved (computeStats (replicate 23 bugB @ replicate 17 bugA)))
             / of_nat (total_count (computeStats (replicate 23 bugB @ replicate 17 bugA))) * 100
             :: rat) = 1 / 2
   \<and> (resolvedPercentage (computeStats (replicate 23 bugB @ replicate 17 bugA))
         = specResolvedPercentage
             (resolved (computeStats (replicate 23 bugB @ replicate 17 bugA)))
             (total_count (computeStats (replicate 23 bugB @ replicate 17 bugA)))
       \<or> resolvedPercentage (computeStats (replicate 23 bugB @ replicate 17 bugA))
         = specResolvedPercentage
             (resolved (computeStats (replicate 23 bugB @ replicate 17 bugA)))
             (total_count (computeStats (replicate 23 bugB @ replicate 17 bugA))) - 1)"
proof -
  let ?many = "replicate 23 bugB @ replicate 17 bugA"
  have 1: "computeStats [bugA, bugB, bugC] =
     \<lparr>total_count = 3, open_count = 2, inProgress = 0, resolved = 1, closed_count = 0,
      critical = 1, high = 1, medium = 0, low = 1, resolvedPercentage = 33\<rparr>"
    by code_simp
  have 2: "length [bugA, bugB, bugC] < 2 ^ 32"
    by simp
  have 3: "frac (of_nat (resolved (computeStats [bugA, bugB, bugC]))
             / of_nat (total_count (computeStats [bugA, bugB, bugC])) * 100 :: rat) \<noteq> 1 / 2"
    by code_simp
  from C4_counts_and_percentage [of "[bugA, bugB, bugC]"]
  have "length [bugA, bugB, bugC] < 2 ^ 32 \<longrightarrow>
        (frac (of_nat (resolved (computeStats [bugA, bugB, bugC]))
                 / of_nat (total_count (computeStats [bugA, bugB, bugC])) * 100 :: rat) \<noteq> 1 / 2 \<longrightarrow>
           resolvedPercentage (computeStats [bugA, bugB, bugC]) =
             specResolvedPercentage (resolved (computeStats [bugA, bugB, bugC]))
               (total_count (computeStats [bugA, bugB, bugC])))
        \<and> (frac (of_nat (resolved (computeStats [bugA, bugB, bugC]))
                 / of_nat (total_count (computeStats [bugA, bugB, bugC])) * 100 :: rat) = 1 / 2 \<longrightarrow>
             resolvedPercentage (computeStats [bugA, bugB, bugC]) =
               specResolvedPercentage (resolved (computeStats [bugA, bugB, bugC]))
                 (total_count (computeStats [bugA, bugB, bugC]))
             \<or> resolvedPercentage (computeStats [bugA, bugB, bugC]) =
               specResolvedPercentage (resolved (computeStats [bugA, bugB, bugC]))
                 (total_count (computeStats [bugA, bugB, bugC])) - 1)"
    by (elim conjE)
  from this [THEN mp, OF 2, THEN conjunct1, THEN mp, OF 3]
  have 4: "resolvedPercentage (computeStats [bugA, bugB, bugC])
       = specResolvedPercentage (resolved (computeStats [bugA, bugB, bugC]))
           (total_count (computeStats [bugA, bugB, bugC]))" .
  have 5: "specResolvedPercentage 1 3 = 33"
    by code_simp
  have 6: "total_count (computeStats []) = 0"
    by (simp add: computeStats_def)
  from C4_counts_and_percentage [of "[]"]
  have "total_count (computeStats []) = 0 \<longrightarrow> resolvedPercentage (computeStats []) = 0"
    by (elim conjE)
  from this 6 have 7: "resolvedPercentage (computeStats []) = 0"
    by (rule mp)
  have 8: "length ?many < 2 ^ 32"
    by simp
  have 9: "frac (of_nat (resolved (computeStats ?many))
             / of_nat (total_count (computeStats ?many)) * 100 :: rat) = 1 / 2"
    by code_simp
  from C4_counts_and_percentage [of ?many]
  have "length ?many < 2 ^ 32 \<longrightarrow>
        (frac (of_nat (resolved (computeStats ?many))
                 / of_nat (total_count (computeStats ?many)) * 100 :: rat) \<noteq> 1 / 2 \<longrightarrow>
           resolvedPercentage (computeStats ?many) =
             specResolvedPercentage (resolved (computeStats ?many))
               (total_count (computeStats ?many)))
        \<and> (frac (of_nat (resolved (computeStats ?many))
                 / of_nat (total_count (computeStats ?many)) * 100 :: rat) = 1 / 2 \<longrightarrow>
             resolvedPercentage (computeStats ?many) =
               specResolvedPercentage (resolved (computeStats ?many))
                 (total_count (computeStats ?many))
             \<or> resolvedPercentage (computeStats ?many) =
               specResolvedPercentage (resolved (computeStats ?many))
                 (total_count (computeStats ?many)) - 1)"
    by (elim conjE)
  from this [THEN mp, OF 8, THEN conjunct2, THEN mp, OF 9]
  have 10: "resolvedPercentage (computeStats ?many)
         = specResolvedPercentage (resolved (computeStats ?many))
             (total_count (computeStats ?many))
       \<or> resolvedPercentage (computeStats ?many)
         = specResolvedPercentage (resolved (computeStats ?many))
             (total_count (computeStats ?many)) - 1" .
  from 1 2 3 4 5 6 7 8 9 10 show ?thesis by (intro conjI)
qed

end
